(* ===== verification/Gateway_Prelude.thy ===== *)
theory Gateway_Prelude
  imports Main "HOL-Library.AList" "HOL-Library.Sublist"
begin

text \<open>
  Shared vocabulary of the development: the JavaScript containers the gateway code
  uses, as HOL lists, and the generic facts about them that the component theories
  rely on.

  \<^item> An array is a list. \<^verbatim>\<open>Array.prototype.push\<close> appends at the end (\<open>push\<close>);
    \<^verbatim>\<open>xs.forEach(s => out.push(f s))\<close> is \<open>push_each\<close>; \<^verbatim>\<open>Array.prototype.find\<close>
    is \<open>List.find\<close> (the first element that satisfies the callback, or nothing).
  \<^item> A \<^verbatim>\<open>Map\<close> is an association list in insertion order (\<open>js_map\<close>):
    \<^verbatim>\<open>Map.prototype.set\<close> overwrites the value of a key that is present, in place, and
    appends a new key at the end, which is \<open>AList.update\<close>; \<^verbatim>\<open>get\<close> is \<open>map_of\<close>;
    the iteration order of the keys is \<open>map fst\<close>.
  \<^item> \<open>first_occs\<close> removes duplicates keeping first occurrences: the order in which
    a sequence of \<^verbatim>\<open>set\<close> calls creates the keys of a \<^verbatim>\<open>Map\<close>.

  The collection \<open>gw_defs\<close> gathers the unfolding rules of the model's definitions;
  \<open>gw_simps\<close> gathers derived equations that are safe as rewrite rules.
\<close>

named_theorems gw_defs "definitions of the gateway model, for unfolding"
named_theorems gw_simps "derived equations of the gateway model"

section \<open>Arrays\<close>

definition push :: "'a \<Rightarrow> 'a list \<Rightarrow> 'a list" where
  "push x xs = xs @ [x]"

definition push_each :: "('a \<Rightarrow> 'b) \<Rightarrow> 'a list \<Rightarrow> 'b list \<Rightarrow> 'b list" where
  "push_each f xs out = fold (\<lambda>s acc. push (f s) acc) xs out"

fun first_occs :: "'a list \<Rightarrow> 'a list" where
  "first_occs [] = []"
| "first_occs (x # xs) = x # first_occs (removeAll x xs)"

section \<open>Maps in insertion order\<close>

type_synonym ('k, 'v) js_map = "('k \<times> 'v) list"

abbreviation js_get :: "('k, 'v) js_map \<Rightarrow> 'k \<Rightarrow> 'v option" where
  "js_get m \<equiv> map_of m"

abbreviation js_set :: "'k \<Rightarrow> 'v \<Rightarrow> ('k, 'v) js_map \<Rightarrow> ('k, 'v) js_map" where
  "js_set \<equiv> AList.update"

abbreviation js_keys :: "('k, 'v) js_map \<Rightarrow> 'k list" where
  "js_keys m \<equiv> map fst m"

definition add_key :: "'k \<Rightarrow> 'k list \<Rightarrow> 'k list" where
  "add_key k ks = (if k \<in> set ks then ks else ks @ [k])"

section \<open>Facts about arrays\<close>

lemma push_each_eq [gw_simps]: "push_each f xs out = out @ map f xs"
  unfolding push_each_def by (induction xs arbitrary: out) (simp_all add: push_def)

lemma set_first_occs [simp]: "set (first_occs xs) = set xs"
  by (induction xs rule: first_occs.induct) auto

lemma distinct_first_occs [simp]: "distinct (first_occs xs)"
  by (induction xs rule: first_occs.induct) auto

lemma first_occs_distinct [simp]: "distinct xs \<Longrightarrow> first_occs xs = xs"
  by (induction xs) auto

lemma first_occs_append_disjoint:
  "set xs \<inter> set ys = {} \<Longrightarrow> first_occs (xs @ ys) = first_occs xs @ first_occs ys"
proof (induction xs rule: first_occs.induct)
  case 1
  show ?case by simp
next
  case (2 x xs)
  then have "x \<notin> set ys" and "set (removeAll x xs) \<inter> set ys = {}" by auto
  with 2 show ?case by (simp add: removeAll_id)
qed

lemma removeAll_filter: "removeAll k (filter P xs) = filter (\<lambda>x. P x \<and> x \<noteq> k) xs"
  by (induction xs) auto

section \<open>Facts about maps in insertion order\<close>

text \<open>
  A \<^verbatim>\<open>set\<close> call changes the key sequence by \<open>add_key\<close>; a run of \<^verbatim>\<open>set\<close> calls
  from the empty map leaves the keys in first-occurrence order.
\<close>

lemma fst_set_js_set [simp]: "fst ` set (js_set k v m) = insert k (fst ` set m)"
  by (simp add: dom_update)

lemma js_keys_set [gw_simps]: "js_keys (js_set k v m) = add_key k (js_keys m)"
  by (simp add: update_keys add_key_def)

lemma set_add_key [simp]: "set (add_key k ks) = insert k (set ks)"
  by (auto simp: add_key_def)

lemma distinct_add_key [simp]: "distinct (add_key k ks) = distinct ks"
  by (auto simp: add_key_def)

lemma fold_add_key_gen:
  "distinct acc \<Longrightarrow> fold add_key ks acc = acc @ first_occs (filter (\<lambda>k. k \<notin> set acc) ks)"
proof (induction ks arbitrary: acc)
  case Nil
  then show ?case by simp
next
  case (Cons k ks)
  show ?case
  proof (cases "k \<in> set acc")
    case True
    with Cons show ?thesis by (simp add: add_key_def)
  next
    case False
    with Cons.prems have "distinct (acc @ [k])" by simp
    from Cons.IH [OF this] False show ?thesis
      by (simp add: add_key_def removeAll_filter conj_commute)
  qed
qed

lemma fold_add_key [gw_simps]: "fold add_key ks [] = first_occs ks"
  using fold_add_key_gen [of "[]" ks] by simp

lemma set_fold_add_key [simp]: "set (fold add_key ks acc) = set acc \<union> set ks"
  by (induction ks arbitrary: acc) auto

lemma distinct_fold_add_key [simp]: "distinct (fold add_key ks acc) = distinct acc"
  by (induction ks arbitrary: acc) auto

lemma js_set_fresh: "k \<notin> fst ` set m \<Longrightarrow> js_set k v m = m @ [(k, v)]"
  by (induction m) auto

lemma fold_js_set_fresh:
  "distinct (map k xs) \<Longrightarrow> set (map k xs) \<inter> fst ` set m = {} \<Longrightarrow>
     fold (\<lambda>x. js_set (k x) (v x)) xs m = m @ map (\<lambda>x. (k x, v x)) xs"
proof (induction xs arbitrary: m)
  case Nil
  show ?case by simp
next
  case (Cons x xs)
  then have "k x \<notin> fst ` set m" and "set (map k xs) \<inter> fst ` set (m @ [(k x, v x)]) = {}"
    by auto
  with Cons show ?case by (simp add: js_set_fresh)
qed

text \<open>
  Reading a map after a run of \<^verbatim>\<open>set\<close> calls: the last call for the key decides,
  and a key no call names keeps its old value.
\<close>

lemma find_append:
  "List.find P (xs @ ys) = (case List.find P xs of None \<Rightarrow> List.find P ys | Some x \<Rightarrow> Some x)"
  by (induction xs) auto

lemma map_of_fold_js_set:
  "js_get (fold (\<lambda>x. js_set (k x) (v x)) xs m) key =
     (case List.find (\<lambda>x. k x = key) (rev xs) of
        Some x \<Rightarrow> Some (v x)
      | None \<Rightarrow> js_get m key)"
  by (induction xs arbitrary: m) (auto simp: update_conv' find_append split: option.splits)

lemma map_of_fold_js_set_const:
  "js_get (fold (\<lambda>k. js_set k v) ks m) key = (if key \<in> set ks then Some v else js_get m key)"
  by (induction ks arbitrary: m) (auto simp: update_conv')

lemma js_keys_fold_js_set:
  "js_keys (fold (\<lambda>x. js_set (k x) (v x)) xs m) = fold add_key (map k xs) (js_keys m)"
  by (induction xs arbitrary: m) (simp_all add: js_keys_set fold_map comp_def)

section \<open>Facts about find\<close>

lemma find_SomeD: "List.find P xs = Some x \<Longrightarrow> P x \<and> x \<in> set xs"
  by (induction xs) (auto split: if_splits)

lemma find_key_None [gw_simps]:
  "List.find (\<lambda>p. f p = k) xs = None \<longleftrightarrow> k \<notin> f ` set xs"
  by (auto simp: find_None_iff)

lemma find_key_distinct:
  "distinct (map f xs) \<Longrightarrow> x \<in> set xs \<Longrightarrow> List.find (\<lambda>p. f p = f x) xs = Some x"
  by (induction xs) (auto simp: image_iff)

lemma find_key_rev:
  assumes "distinct (map f xs)"
  shows "List.find (\<lambda>x. f x = k) (rev xs) = List.find (\<lambda>x. f x = k) xs"
proof (cases "k \<in> f ` set xs")
  case True
  then obtain x where x: "x \<in> set xs" "f x = k" by auto
  from assms have "distinct (map f (rev xs))" by (simp add: rev_map [symmetric])
  from find_key_distinct [OF this, of x] find_key_distinct [OF assms, of x] x
  show ?thesis by simp
next
  case False
  then have "List.find (\<lambda>x. f x = k) (rev xs) = None" and "List.find (\<lambda>x. f x = k) xs = None"
    by (auto simp: find_None_iff)
  then show ?thesis by simp
qed

lemma fold_js_set_const_empty:
  "js_get (fold (\<lambda>x. js_set (k x) v) xs []) key = (if key \<in> k ` set xs then Some v else None)"
  using map_of_fold_js_set_const [of v "map k xs" "[]" key] by (simp add: fold_map comp_def)

section \<open>Facts about filter\<close>

text \<open>Selecting by a key that is unique in the list selects at most one element.\<close>

lemma filter_key_distinct:
  "distinct (map f xs) \<Longrightarrow>
     filter (\<lambda>x. f x = k) xs = (case List.find (\<lambda>x. f x = k) xs of None \<Rightarrow> [] | Some x \<Rightarrow> [x])"
proof (induction xs)
  case Nil
  show ?case by simp
next
  case (Cons x xs)
  show ?case
  proof (cases "f x = k")
    case True
    with Cons.prems have "\<forall>y\<in>set xs. f y \<noteq> k" by (force simp: image_iff)
    then have "filter (\<lambda>x. f x = k) xs = []" by (simp add: filter_empty_conv)
    with True show ?thesis by simp
  next
    case False
    with Cons show ?thesis by simp
  qed
qed

lemma filter_eq_distinct:
  "distinct ks \<Longrightarrow> filter (\<lambda>k. k = key) ks = (if key \<in> set ks then [key] else [])"
  by (induction ks) auto

lemma length_filter_mem_distinct:
  assumes "distinct xs" and "distinct zs" and "set zs \<subseteq> set xs"
  shows "length (filter (\<lambda>s. s \<in> set zs) xs) = length zs"
proof -
  have "set (filter (\<lambda>s. s \<in> set zs) xs) = set zs" using assms(3) by auto
  moreover have "distinct (filter (\<lambda>s. s \<in> set zs) xs)" using assms(1) by simp
  ultimately show ?thesis using assms(2) by (metis distinct_card)
qed

lemma find_map_key:
  "(\<And>x. P (f x) = Q x) \<Longrightarrow> List.find P (map f xs) = map_option f (List.find Q xs)"
  by (induction xs) simp_all

text \<open>A list that starts with all its elements of one kind.\<close>

lemma takeWhile_none: "\<forall>y\<in>set ys. \<not> P y \<Longrightarrow> takeWhile P ys = []"
  by (cases ys) simp_all

lemma takeWhile_filter_prefix:
  assumes "\<forall>x\<in>set xs. P x" and "\<forall>y\<in>set ys. \<not> P y"
  shows "takeWhile P (xs @ ys) = xs" and "filter P (xs @ ys) = xs"
  using assms by (simp_all add: takeWhile_append2 takeWhile_none filter_id_conv filter_empty_conv)

section \<open>Facts about distinctness\<close>

text \<open>
  Lists that are grouped by a key with distinct values concatenate to a distinct
  list when each group is distinct.
\<close>

lemma distinct_concat_map_key:
  assumes "distinct (map k xs)"
    and "\<And>x. x \<in> set xs \<Longrightarrow> distinct (f x)"
    and "\<And>x c. x \<in> set xs \<Longrightarrow> c \<in> set (f x) \<Longrightarrow> key c = k x"
  shows "distinct (concat (map f xs))"
  using assms
proof (induction xs)
  case Nil
  show ?case by simp
next
  case (Cons x xs)
  have disj: "set (f x) \<inter> set (f y) = {}" if "y \<in> set xs" for y
  proof (rule ccontr)
    assume "set (f x) \<inter> set (f y) \<noteq> {}"
    then obtain c where "c \<in> set (f x)" and "c \<in> set (f y)" by auto
    with that Cons.prems(3) [of x c] Cons.prems(3) [of y c] have "k x = k y" by simp
    with that Cons.prems(1) show False by auto
  qed
  have "set (f x) \<inter> (\<Union>y\<in>set xs. set (f y)) = {}"
    using disj by blast
  moreover have "distinct (concat (map f xs))"
    using Cons.prems by (intro Cons.IH) simp_all
  ultimately show ?case using Cons.prems(2) [of x] by simp
qed

lemma disjoint_fst: "fst ` A \<inter> fst ` B = {} \<Longrightarrow> A \<inter> B = {}"
  by auto

section \<open>Facts about sizes\<close>

text \<open>
  Bounds on the length of a concatenation, and on a sum in which one key, which
  occurs at most once, contributes a fixed amount.
\<close>

lemma sum_list_if_key:
  fixes a :: nat
  assumes "distinct (map k xs)"
  shows "sum_list (map (\<lambda>x. if k x = key then a else f x) xs) \<le> a + sum_list (map f xs)"
  using assms
proof (induction xs)
  case Nil
  show ?case by simp
next
  case (Cons x xs)
  show ?case
  proof (cases "k x = key")
    case True
    with Cons.prems have "\<forall>y\<in>set xs. k y \<noteq> key" by (force simp: image_iff)
    then have "sum_list (map (\<lambda>x. if k x = key then a else f x) xs) = sum_list (map f xs)"
      by (intro arg_cong [where f = sum_list] map_cong refl) simp
    with True show ?thesis by simp
  next
    case False
    with Cons show ?thesis by simp
  qed
qed

lemma length_concat_le:
  assumes "\<And>x. x \<in> set xs \<Longrightarrow> length (f x) \<le> g x"
  shows "length (concat (map f xs)) \<le> sum_list (map g xs)"
  using assms by (induction xs) (auto simp: add_mono)

lemma in_filter_key: "x \<in> set xs \<longleftrightarrow> x \<in> set (filter (\<lambda>y. f y = f x) xs)"
  by simp

section \<open>Facts about suffixes\<close>

text \<open>
  A loop over an array has a suffix of the array left; what it has visited is the
  prefix before that suffix.
\<close>

lemma take_suffix: "suffix ys xs \<Longrightarrow> take (length xs - length ys) xs @ ys = xs"
  by (auto simp: suffix_def)

lemma take_suffix_Cons:
  assumes "suffix (y # ys) xs"
  shows "take (length xs - length ys) xs = take (length xs - Suc (length ys)) xs @ [y]"
  using assms by (auto simp: suffix_def)

section \<open>Facts about subsequences\<close>

lemma subseq_set: "subseq xs ys \<Longrightarrow> set xs \<subseteq> set ys"
  by (auto elim: list_emb_set)

lemma subseq_distinct: "subseq xs ys \<Longrightarrow> distinct ys \<Longrightarrow> distinct xs"
  by (induction rule: list_emb.induct) (auto dest: subseq_set)

lemma subseq_filter_common:
  "subseq zs xs \<Longrightarrow> set zs \<subseteq> A \<Longrightarrow> subseq zs (filter (\<lambda>s. s \<in> A) xs)"
  using subseq_filter [of zs xs "\<lambda>s. s \<in> A"] by (simp add: filter_id_conv subset_iff)

lemma filter_mem_subseq:
  assumes "subseq zs xs" and "distinct xs"
  shows "filter (\<lambda>s. s \<in> set zs) xs = zs"
  using assms
proof (induction rule: list_emb.induct)
  case (list_emb_Nil ys)
  show ?case by simp
next
  case (list_emb_Cons zs ys y)
  then have "y \<notin> set zs" by (auto dest: subseq_set)
  with list_emb_Cons show ?case by simp
next
  case (list_emb_Cons2 x y zs ys)
  then have "filter (\<lambda>s. s = x \<or> s \<in> set zs) ys = filter (\<lambda>s. s \<in> set zs) ys"
    by (intro filter_cong) auto
  with list_emb_Cons2 show ?case by simp
qed

lemma subseq_same_set:
  assumes "subseq zs xs" and "distinct xs" and "set xs \<subseteq> set zs"
  shows "zs = xs"
proof -
  from assms(3) have "filter (\<lambda>s. s \<in> set zs) xs = xs" by (auto simp: filter_id_conv)
  with filter_mem_subseq [OF assms(1,2)] show ?thesis by simp
qed

section \<open>Lists in groups\<close>

text \<open>
  A list that is built group by group, one group per element of a list with distinct
  keys, every member of a group carrying the key of its element: removing adjacent
  repetitions from the keys of the members leaves the keys of the groups that are not
  empty, in order.
\<close>

lemma map_const_on:
  assumes "\<And>y. y \<in> set ys \<Longrightarrow> k y = a"
  shows "map k ys = replicate (length ys) a"
  using assms by (induction ys) simp_all

lemma remdups_adj_append_fresh:
  assumes "\<And>y. y \<in> set ys \<Longrightarrow> y \<notin> set xs"
  shows "remdups_adj (xs @ ys) = remdups_adj xs @ remdups_adj ys"
proof (cases "xs = [] \<or> ys = []")
  case False
  then have "last xs \<in> set xs" and "hd ys \<in> set ys" by simp_all
  with assms have "last xs \<noteq> hd ys" by metis
  then show ?thesis by (simp add: remdups_adj_append')
qed auto

lemma remdups_adj_grouped:
  assumes "distinct (map f xs)" and "\<And>x y. x \<in> set xs \<Longrightarrow> y \<in> set (h x) \<Longrightarrow> k y = f x"
  shows "remdups_adj (map k (concat (map h xs))) = map f (filter (\<lambda>x. h x \<noteq> []) xs)"
  using assms
proof (induction xs)
  case Nil
  show ?case by simp
next
  case (Cons x xs)
  have hx: "map k (h x) = replicate (length (h x)) (f x)"
    by (rule map_const_on) (simp add: Cons.prems(2))
  have "y \<notin> set (map k (h x))" if "y \<in> set (map k (concat (map h xs)))" for y
  proof -
    from that Cons.prems(2) have "y \<in> f ` set xs" by auto
    moreover from Cons.prems(1) have "f x \<notin> f ` set xs" by simp
    ultimately have "y \<noteq> f x" by blast
    then show ?thesis by (simp add: hx)
  qed
  then have "remdups_adj (map k (h x) @ map k (concat (map h xs))) =
      remdups_adj (map k (h x)) @ remdups_adj (map k (concat (map h xs)))"
    by (rule remdups_adj_append_fresh)
  with Cons show ?case by (simp add: hx remdups_adj_replicate)
qed

end
