(* ===== verification/Playlist_Model.thy ===== *)
theory Playlist_Model
  imports Gateway_Prelude
begin

text \<open>
  The data the playlist differ works on.

  \<^item> \<open>RundownId\<close>, \<open>SegmentId\<close>, \<open>ResolvedPlaylistRundown\<close> and \<open>ResolvedPlaylist\<close>
    are imported by \<^verbatim>\<open>src/src/helpers/DiffPlaylist.ts\<close> from modules that are not
    part of the sources; they are modelled from the specification and from the way
    the differ uses them: a rundown is read through \<^verbatim>\<open>rundownId\<close> and \<^verbatim>\<open>segments\<close>
    only, and its \<^verbatim>\<open>segments\<close> are passed to the resolver and copied into change
    records as segment ids, so they are a list of \<open>SegmentId\<close>. The record is
    extensible: every operation is stated over \<open>'a ResolvedPlaylistRundown_scheme\<close>,
    so further fields of a rundown cannot influence a result; \<open>core_rundown\<close>
    forgets them.
  \<^item> \<open>PlaylistChangeType\<close> is the enum of \<^verbatim>\<open>DiffPlaylist.ts\<close> with the members'
    names. \<open>PlaylistChangeType_members\<close> lists the members in the order of their
    declaration, and the type is an instance of the class \<open>enum\<close> with that list
    as its enumeration. The numbers TypeScript gives the members are not modelled:
    no code of the sources reads them.
  \<^item> \<open>PlaylistChange\<close> is the union of the six \<^verbatim>\<open>PlaylistChange...\<close> interfaces, one
    constructor per interface with the interface's fields. The constructors carry
    the short names the specification uses (\<open>RundownDeleted\<close> for the interface
    \<^verbatim>\<open>PlaylistChangeRundownDeleted\<close>), since the long names are the enum's members.
    The \<^verbatim>\<open>type\<close> field, which each interface fixes to one enum member, is the
    function \<open>change_type\<close>; \<^verbatim>\<open>segmentExternalId\<close>, which only the segment
    interfaces have, is the partial selector \<open>segmentExternalId\<close>.
  \<^item> \<open>SegmentChanges\<close> is the object stored per rundown in the result's
    \<^verbatim>\<open>segmentChanges\<close> map, and \<open>PlaylistDiff\<close> the object \<^verbatim>\<open>DiffPlaylist\<close> returns.
    \<open>resolver\<close> is the type of \<^verbatim>\<open>GetMovedSegments\<close>: from the previous and the new
    segment order to a \<open>SegmentChanges\<close>.
  \<^item> \<open>change_target\<close> is what a change record is about: a rundown, or a segment
    of a rundown. \<open>wf_playlist\<close> is the well-formedness the specification asks of a
    playlist: rundown ids are unique, and segment ids are unique within a rundown.
    \<open>playlist_size\<close> counts the rundowns and the segments of a playlist.
\<close>

section \<open>Identifiers and playlists\<close>

type_synonym RundownId = string
type_synonym SegmentId = string

record ResolvedPlaylistRundown =
  rundownId :: RundownId
  segments :: "SegmentId list"

type_synonym 'a ResolvedPlaylist = "'a ResolvedPlaylistRundown_scheme list"

abbreviation rundownIds :: "'a ResolvedPlaylist \<Rightarrow> RundownId list" where
  "rundownIds playlist \<equiv> map rundownId playlist"

definition core_rundown :: "'a ResolvedPlaylistRundown_scheme \<Rightarrow> ResolvedPlaylistRundown" where
  "core_rundown r = \<lparr>rundownId = rundownId r, segments = segments r\<rparr>"

section \<open>Change records\<close>

datatype PlaylistChangeType =
    PlaylistChangeSegmentDeleted
  | PlaylistChangeSegmentCreated
  | PlaylistChangeSegmentChanged
  | PlaylistChangeSegmentMoved
  | PlaylistChangeRundownDeleted
  | PlaylistChangeRundownCreated

definition PlaylistChangeType_members :: "PlaylistChangeType list" where
  "PlaylistChangeType_members =
     [PlaylistChangeSegmentDeleted, PlaylistChangeSegmentCreated, PlaylistChangeSegmentChanged,
      PlaylistChangeSegmentMoved, PlaylistChangeRundownDeleted, PlaylistChangeRundownCreated]"

datatype PlaylistChange =
    SegmentDeleted (rundownExternalId: RundownId) SegmentId
  | SegmentCreated (rundownExternalId: RundownId) SegmentId
  | SegmentChanged (rundownExternalId: RundownId) SegmentId
  | SegmentMoved (rundownExternalId: RundownId) SegmentId
  | RundownDeleted (rundownExternalId: RundownId)
  | RundownCreated (rundownExternalId: RundownId)

fun change_type :: "PlaylistChange \<Rightarrow> PlaylistChangeType" where
  "change_type (SegmentDeleted r s) = PlaylistChangeSegmentDeleted"
| "change_type (SegmentCreated r s) = PlaylistChangeSegmentCreated"
| "change_type (SegmentChanged r s) = PlaylistChangeSegmentChanged"
| "change_type (SegmentMoved r s) = PlaylistChangeSegmentMoved"
| "change_type (RundownDeleted r) = PlaylistChangeRundownDeleted"
| "change_type (RundownCreated r) = PlaylistChangeRundownCreated"

fun segmentExternalId :: "PlaylistChange \<Rightarrow> SegmentId option" where
  "segmentExternalId (SegmentDeleted r s) = Some s"
| "segmentExternalId (SegmentCreated r s) = Some s"
| "segmentExternalId (SegmentChanged r s) = Some s"
| "segmentExternalId (SegmentMoved r s) = Some s"
| "segmentExternalId (RundownDeleted r) = None"
| "segmentExternalId (RundownCreated r) = None"

definition is_rundown_change :: "PlaylistChange \<Rightarrow> bool" where
  "is_rundown_change c \<longleftrightarrow>
     change_type c = PlaylistChangeRundownDeleted \<or> change_type c = PlaylistChangeRundownCreated"

definition is_segment_change :: "PlaylistChange \<Rightarrow> bool" where
  "is_segment_change c \<longleftrightarrow> \<not> is_rundown_change c"

definition change_target :: "PlaylistChange \<Rightarrow> RundownId \<times> SegmentId option" where
  "change_target c = (rundownExternalId c, segmentExternalId c)"

section \<open>Results\<close>

record SegmentChanges =
  movedSegments :: "SegmentId list"
  notMovedSegments :: "SegmentId list"
  insertedSegments :: "SegmentId list"
  deletedSegments :: "SegmentId list"

record PlaylistDiff =
  changes :: "PlaylistChange list"
  segmentChanges :: "(RundownId, SegmentChanges) js_map"

type_synonym resolver = "SegmentId list \<Rightarrow> SegmentId list \<Rightarrow> SegmentChanges"

definition no_segment_changes :: SegmentChanges where
  "no_segment_changes =
     \<lparr>movedSegments = [], notMovedSegments = [], insertedSegments = [], deletedSegments = []\<rparr>"

definition wf_playlist :: "'a ResolvedPlaylist \<Rightarrow> bool" where
  "wf_playlist playlist \<longleftrightarrow>
     distinct (rundownIds playlist) \<and> list_all (\<lambda>r. distinct (segments r)) playlist"

definition playlist_size :: "'a ResolvedPlaylist \<Rightarrow> nat" where
  "playlist_size playlist = length playlist + sum_list (map (\<lambda>r. length (segments r)) playlist)"

section \<open>The enum as an enumeration type\<close>

instantiation PlaylistChangeType :: enum
begin

definition enum_PlaylistChangeType :: "PlaylistChangeType list" where
  "enum_PlaylistChangeType = PlaylistChangeType_members"

definition enum_all_PlaylistChangeType :: "(PlaylistChangeType \<Rightarrow> bool) \<Rightarrow> bool" where
  "enum_all_PlaylistChangeType P \<longleftrightarrow> list_all P (Enum.enum :: PlaylistChangeType list)"

definition enum_ex_PlaylistChangeType :: "(PlaylistChangeType \<Rightarrow> bool) \<Rightarrow> bool" where
  "enum_ex_PlaylistChangeType P \<longleftrightarrow> list_ex P (Enum.enum :: PlaylistChangeType list)"

instance
proof
  have univ: "(UNIV :: PlaylistChangeType set) = set Enum.enum"
  proof -
    have "t \<in> set Enum.enum" for t :: PlaylistChangeType
      by (cases t) (simp_all add: enum_PlaylistChangeType_def PlaylistChangeType_members_def)
    then show ?thesis by auto
  qed
  show "(UNIV :: PlaylistChangeType set) = set enum_class.enum" by (rule univ)
  show "distinct (enum_class.enum :: PlaylistChangeType list)"
    by (simp add: enum_PlaylistChangeType_def PlaylistChangeType_members_def)
  show "enum_class.enum_all P = Ball (UNIV :: PlaylistChangeType set) P" for P
    by (simp add: enum_all_PlaylistChangeType_def univ list_all_iff)
  show "enum_class.enum_ex P = Bex (UNIV :: PlaylistChangeType set) P" for P
    by (simp add: enum_ex_PlaylistChangeType_def univ list_ex_iff)
qed

end

declare is_rundown_change_def [gw_defs] is_segment_change_def [gw_defs]
  no_segment_changes_def [gw_defs]

lemma SegmentChanges_rebuild [simp]:
  "\<lparr>movedSegments = movedSegments sc, notMovedSegments = notMovedSegments sc,
    insertedSegments = insertedSegments sc, deletedSegments = deletedSegments sc\<rparr> = sc"
  by (cases sc) simp

lemma enum_members_eq: "Enum.enum = PlaylistChangeType_members"
  by (simp add: enum_PlaylistChangeType_def)

section \<open>Facts about change records\<close>

text \<open>
  The union is discriminated by its \<^verbatim>\<open>type\<close> field: a change record is determined by
  its type, its rundown id and its segment id, and a record has a segment id exactly
  when its type is one of the four segment kinds.
\<close>

lemma change_eqI:
  assumes "change_type a = change_type b"
    and "rundownExternalId a = rundownExternalId b"
    and "segmentExternalId a = segmentExternalId b"
  shows "a = b"
  using assms by (cases a; cases b) simp_all

lemma segmentExternalId_None_iff [gw_simps]:
  "segmentExternalId c = None \<longleftrightarrow> is_rundown_change c"
  by (cases c) (simp_all add: is_rundown_change_def)

lemma change_type_simps [gw_simps]:
  "change_type c = PlaylistChangeRundownDeleted \<longleftrightarrow> c = RundownDeleted (rundownExternalId c)"
  "change_type c = PlaylistChangeRundownCreated \<longleftrightarrow> c = RundownCreated (rundownExternalId c)"
  by (cases c; simp)+

lemma change_target_deleted:
  "map change_target (map RundownDeleted rids) = map (\<lambda>rid. (rid, None)) rids"
  by (simp add: change_target_def)

lemma segment_change_neq:
  "is_segment_change c \<Longrightarrow> c \<noteq> RundownCreated rid" "is_segment_change c \<Longrightarrow> c \<noteq> RundownDeleted rid"
  by (auto simp: is_segment_change_def is_rundown_change_def)

section \<open>The fields the differ reads\<close>

lemma core_rundown_simps [simp]:
  "rundownId (core_rundown r) = rundownId r" "segments (core_rundown r) = segments r"
  by (simp_all add: core_rundown_def)

lemma core_rundown_eq_iff:
  "core_rundown r = core_rundown p \<longleftrightarrow> rundownId r = rundownId p \<and> segments r = segments p"
  by (simp add: core_rundown_def)

section \<open>Well-formed playlists\<close>

lemma wf_playlistD:
  "wf_playlist playlist \<Longrightarrow> distinct (rundownIds playlist)"
  "wf_playlist playlist \<Longrightarrow> r \<in> set playlist \<Longrightarrow> distinct (segments r)"
  by (auto simp: wf_playlist_def list_all_iff)

lemma wf_playlist_rev: "wf_playlist (rev playlist) \<longleftrightarrow> wf_playlist playlist"
  by (simp add: wf_playlist_def list_all_iff flip: rev_map)

end
