(* ===== verification/Move_Set_Resolver.thy ===== *)
theory Move_Set_Resolver
  imports Playlist_Model
begin

text \<open>
  The move-set resolver \<^verbatim>\<open>GetMovedSegments\<close>. Its module is not among the sources:
  the definitions of this theory are modelled from the specification (section 4.1
  and the design notes), not from code.

  \<^item> \<open>common_segments xs ys\<close> are the elements of \<open>xs\<close> that occur in \<open>ys\<close>, in
    the order of \<open>xs\<close>.
  \<^item> \<open>lcs\<close> is the reference definition of the longest common subsequence, by
    recursion from the front of both sequences. Where dropping the head of either
    sequence gives the same length, it keeps the head of the previous order; this
    is the choice that yields the classification of the specification's worked
    example.
  \<^item> \<open>GetMovedSegments\<close> returns the four lists: inserted and deleted by membership,
    not moved as the \<open>lcs\<close> of the two common sequences, moved as the rest of the
    common segments in the new order.

  \<open>is_partition\<close> and \<open>is_lcs\<close> state the resolver's contract; the lemmas show
  that \<open>GetMovedSegments\<close> meets it for all inputs, duplicates included, that
  for distinct ids the moved list is as short as any classification allows, and
  what it returns when segments are only appended or only dropped at the end.
\<close>

section \<open>Definitions\<close>

definition common_segments :: "'a list \<Rightarrow> 'a list \<Rightarrow> 'a list" where
  "common_segments xs ys = filter (\<lambda>s. s \<in> set ys) xs"

fun lcs :: "'a list \<Rightarrow> 'a list \<Rightarrow> 'a list" where
  "lcs [] ys = []"
| "lcs xs [] = []"
| "lcs (x # xs) (y # ys) =
     (if x = y then x # lcs xs ys
      else if length (lcs xs (y # ys)) \<le> length (lcs (x # xs) ys) then lcs (x # xs) ys
      else lcs xs (y # ys))"

definition GetMovedSegments :: resolver where
  "GetMovedSegments prevSegments newSegments =
     (let insertedSegments = filter (\<lambda>s. s \<notin> set prevSegments) newSegments;
          deletedSegments = filter (\<lambda>s. s \<notin> set newSegments) prevSegments;
          notMovedSegments =
            lcs (common_segments prevSegments newSegments) (common_segments newSegments prevSegments);
          movedSegments =
            filter (\<lambda>s. s \<notin> set notMovedSegments) (common_segments newSegments prevSegments)
      in \<lparr>movedSegments = movedSegments, notMovedSegments = notMovedSegments,
          insertedSegments = insertedSegments, deletedSegments = deletedSegments\<rparr>)"

section \<open>The contract\<close>

definition is_partition :: "SegmentId list \<Rightarrow> SegmentId list \<Rightarrow> SegmentChanges \<Rightarrow> bool" where
  "is_partition p n sc \<longleftrightarrow>
     set (movedSegments sc) \<union> set (notMovedSegments sc) = set p \<inter> set n \<and>
     set (movedSegments sc) \<inter> set (notMovedSegments sc) = {} \<and>
     set (insertedSegments sc) = set n - set p \<and>
     set (deletedSegments sc) = set p - set n"

definition is_lcs :: "'a list \<Rightarrow> 'a list \<Rightarrow> 'a list \<Rightarrow> bool" where
  "is_lcs zs xs ys \<longleftrightarrow>
     subseq zs xs \<and> subseq zs ys \<and>
     (\<forall>ws. subseq ws xs \<and> subseq ws ys \<longrightarrow> length ws \<le> length zs)"

section \<open>The longest common subsequence\<close>

lemma subseq_lcs_left: "subseq (lcs xs ys) xs"
  by (induction xs ys rule: lcs.induct) auto

lemma subseq_lcs_right: "subseq (lcs xs ys) ys"
  by (induction xs ys rule: lcs.induct) auto

lemma length_lcs_Cons_neq:
  "x \<noteq> y \<Longrightarrow>
     length (lcs (x # xs) (y # ys)) = max (length (lcs (x # xs) ys)) (length (lcs xs (y # ys)))"
  by simp

lemma subseq_Cons_same:
  assumes "subseq zs (x # xs)" and "subseq zs (x # ys)"
  obtains ws where "subseq ws xs" and "subseq ws ys" and "length zs \<le> Suc (length ws)"
proof (cases zs)
  case Nil
  with that [of "[]"] show ?thesis by simp
next
  case (Cons z zs')
  show ?thesis
  proof (cases "z = x")
    case True
    with Cons assms that [of zs'] show ?thesis by simp
  next
    case False
    with Cons assms that [of zs] show ?thesis by simp
  qed
qed

lemma subseq_Cons_neq:
  assumes "x \<noteq> y" and "subseq zs (x # xs)" and "subseq zs (y # ys)"
  shows "subseq zs xs \<or> subseq zs ys"
proof (cases zs)
  case Nil
  then show ?thesis by simp
next
  case (Cons z zs')
  with assms show ?thesis by (cases "z = x") auto
qed

lemma lcs_longest: "subseq zs xs \<Longrightarrow> subseq zs ys \<Longrightarrow> length zs \<le> length (lcs xs ys)"
proof (induction xs ys arbitrary: zs rule: lcs.induct)
  case (1 ys)
  then show ?case by simp
next
  case (2 v va)
  then show ?case by simp
next
  case (3 x xs y ys)
  show ?case
  proof (cases "x = y")
    case True
    with "3.prems" obtain ws where "subseq ws xs" "subseq ws ys" "length zs \<le> Suc (length ws)"
      by (auto elim: subseq_Cons_same)
    with "3.IH"(1) [OF True, of ws] True show ?thesis by simp
  next
    case False
    from subseq_Cons_neq [OF False "3.prems"] "3.prems"
    have "length zs \<le> length (lcs (x # xs) ys) \<or> length zs \<le> length (lcs xs (y # ys))"
      using "3.IH"(2,3) [OF False] by blast
    with False show ?thesis by (auto simp del: lcs.simps simp: length_lcs_Cons_neq)
  qed
qed

lemma is_lcs_lcs: "is_lcs (lcs xs ys) xs ys"
  by (simp add: is_lcs_def subseq_lcs_left subseq_lcs_right lcs_longest)

lemma lcs_refl [simp]: "lcs xs xs = xs"
  by (induction xs) auto

section \<open>The resolver\<close>

lemma GetMovedSegments_fields:
  "insertedSegments (GetMovedSegments p n) = filter (\<lambda>s. s \<notin> set p) n"
  "deletedSegments (GetMovedSegments p n) = filter (\<lambda>s. s \<notin> set n) p"
  "notMovedSegments (GetMovedSegments p n) = lcs (common_segments p n) (common_segments n p)"
  "movedSegments (GetMovedSegments p n) =
     filter (\<lambda>s. s \<notin> set (lcs (common_segments p n) (common_segments n p))) (common_segments n p)"
  by (simp_all add: GetMovedSegments_def Let_def)

lemma set_common_segments [simp]: "set (common_segments xs ys) = set xs \<inter> set ys"
  by (auto simp: common_segments_def)

lemma subseq_common_segments: "subseq (common_segments xs ys) xs"
  by (simp add: common_segments_def)

lemma common_segments_same [simp]: "common_segments xs xs = xs"
  by (simp add: common_segments_def)

lemma set_notMoved_subset:
  "set (notMovedSegments (GetMovedSegments p n)) \<subseteq> set p \<inter> set n"
  using subseq_set [OF subseq_lcs_left [of "common_segments p n" "common_segments n p"]]
  by (simp add: GetMovedSegments_fields)

lemma GetMovedSegments_partition: "is_partition p n (GetMovedSegments p n)"
  unfolding is_partition_def
  using set_notMoved_subset [of p n] by (auto simp: GetMovedSegments_fields)

text \<open>
  The contract in the words of the specification: the four lists cover the ids of
  both sequences, and no id is in two of them.
\<close>

lemma is_partition_cover:
  assumes "is_partition p n sc"
  shows "set (movedSegments sc) \<union> set (notMovedSegments sc) \<union> set (insertedSegments sc) \<union>
     set (deletedSegments sc) = set p \<union> set n"
  using assms unfolding is_partition_def by blast

lemma is_partition_disjoint:
  assumes "is_partition p n sc"
  shows "set (movedSegments sc) \<inter> set (notMovedSegments sc) = {}"
    and "set (movedSegments sc) \<inter> set (insertedSegments sc) = {}"
    and "set (movedSegments sc) \<inter> set (deletedSegments sc) = {}"
    and "set (notMovedSegments sc) \<inter> set (insertedSegments sc) = {}"
    and "set (notMovedSegments sc) \<inter> set (deletedSegments sc) = {}"
    and "set (insertedSegments sc) \<inter> set (deletedSegments sc) = {}"
  using assms unfolding is_partition_def by blast+

lemma GetMovedSegments_minimal: "is_lcs (notMovedSegments (GetMovedSegments p n)) p n"
proof -
  let ?z = "lcs (common_segments p n) (common_segments n p)"
  have "subseq ?z p" "subseq ?z n"
    using subseq_lcs_left [of "common_segments p n" "common_segments n p"]
      subseq_lcs_right [of "common_segments p n" "common_segments n p"]
      subseq_common_segments [of p n] subseq_common_segments [of n p]
    by (blast intro: subseq_order.order_trans)+
  moreover have "length ws \<le> length ?z" if "subseq ws p" "subseq ws n" for ws
  proof -
    from that have "set ws \<subseteq> set n" "set ws \<subseteq> set p" by (auto dest: subseq_set)
    with that have "subseq ws (common_segments p n)" "subseq ws (common_segments n p)"
      by (simp_all add: common_segments_def subseq_filter_common)
    then show ?thesis by (rule lcs_longest)
  qed
  ultimately show ?thesis by (simp add: is_lcs_def GetMovedSegments_fields)
qed

lemma GetMovedSegments_same:
  "GetMovedSegments xs xs =
     \<lparr>movedSegments = [], notMovedSegments = xs, insertedSegments = [], deletedSegments = []\<rparr>"
  by (simp add: GetMovedSegments_def)

text \<open>
  Appending segments the previous order does not have inserts them and moves
  nothing; dropping a tail the new order does not have deletes it and moves nothing.
\<close>

lemma common_segments_append:
  "common_segments xs (xs @ ys) = xs"
  "set xs \<inter> set ys = {} \<Longrightarrow> common_segments (xs @ ys) xs = xs"
  by (auto simp: common_segments_def filter_id_conv filter_empty_conv)

lemma GetMovedSegments_append:
  assumes "set xs \<inter> set ys = {}"
  shows "GetMovedSegments xs (xs @ ys) =
     \<lparr>movedSegments = [], notMovedSegments = xs, insertedSegments = ys, deletedSegments = []\<rparr>"
  using assms
  by (auto simp: GetMovedSegments_def common_segments_append filter_id_conv filter_empty_conv)

lemma GetMovedSegments_take:
  assumes "set xs \<inter> set ys = {}"
  shows "GetMovedSegments (xs @ ys) xs =
     \<lparr>movedSegments = [], notMovedSegments = xs, insertedSegments = [], deletedSegments = ys\<rparr>"
  using assms
  by (auto simp: GetMovedSegments_def common_segments_append filter_id_conv filter_empty_conv)

lemma GetMovedSegments_distinct:
  assumes "distinct p" and "distinct n"
  shows "distinct (movedSegments (GetMovedSegments p n) @ insertedSegments (GetMovedSegments p n) @
    deletedSegments (GetMovedSegments p n))"
  using assms by (auto simp: GetMovedSegments_fields common_segments_def)

text \<open>
  The moved list is as short as can be: with distinct ids in the new order, the moved
  and the not-moved segments are the common segments, one each, so whatever common
  subsequence is kept in place, at least as many segments have to move.
\<close>

lemma GetMovedSegments_length_moved:
  assumes "distinct n"
  shows "length (movedSegments (GetMovedSegments p n)) + length (notMovedSegments (GetMovedSegments p n)) =
    length (common_segments n p)"
proof -
  let ?c = "common_segments n p" and ?z = "notMovedSegments (GetMovedSegments p n)"
  have c: "distinct ?c" using assms by (simp add: common_segments_def)
  have sub: "subseq ?z ?c" by (simp add: GetMovedSegments_fields subseq_lcs_right)
  from subseq_distinct [OF sub c] subseq_set [OF sub]
  have z: "distinct ?z" "set ?z \<subseteq> set ?c" by simp_all
  have "length (filter (\<lambda>s. s \<notin> set ?z) ?c) + length (filter (\<lambda>s. s \<in> set ?z) ?c) = length ?c"
    using sum_length_filter_compl [of "\<lambda>s. s \<in> set ?z" ?c] by simp
  with length_filter_mem_distinct [OF c z] show ?thesis
    by (simp add: GetMovedSegments_fields)
qed

lemma GetMovedSegments_fewest_moved:
  assumes "distinct n" and "subseq zs p" and "subseq zs n"
  shows "length (movedSegments (GetMovedSegments p n)) + length zs \<le> length (common_segments n p)"
proof -
  from GetMovedSegments_minimal [of p n] assms(2,3)
  have "length zs \<le> length (notMovedSegments (GetMovedSegments p n))"
    by (simp add: is_lcs_def)
  with GetMovedSegments_length_moved [OF assms(1), of p] show ?thesis by simp
qed

text \<open>
  What is not reported stays in place: with distinct ids in both orders, taking the
  moved, inserted and deleted segments out of the previous order and out of the new
  order leaves the same sequence, the not-moved segments.
\<close>

lemma GetMovedSegments_in_place:
  assumes "distinct p" and "distinct n"
  defines "sc \<equiv> GetMovedSegments p n"
  defines "reported \<equiv> set (movedSegments sc) \<union> set (insertedSegments sc) \<union> set (deletedSegments sc)"
  shows "filter (\<lambda>s. s \<notin> reported) p = notMovedSegments sc"
    and "filter (\<lambda>s. s \<notin> reported) n = notMovedSegments sc"
proof -
  have zp: "subseq (notMovedSegments sc) p" and zn: "subseq (notMovedSegments sc) n"
    using GetMovedSegments_minimal [of p n] by (simp_all add: is_lcs_def sc_def)
  note sets = subseq_set [OF zp] subseq_set [OF zn]
  have "filter (\<lambda>s. s \<notin> reported) p = filter (\<lambda>s. s \<in> set (notMovedSegments sc)) p"
    using sets by (intro filter_cong) (auto simp: reported_def sc_def GetMovedSegments_fields)
  with filter_mem_subseq [OF zp assms(1)] show "filter (\<lambda>s. s \<notin> reported) p = notMovedSegments sc"
    by simp
  have "filter (\<lambda>s. s \<notin> reported) n = filter (\<lambda>s. s \<in> set (notMovedSegments sc)) n"
    using sets by (intro filter_cong) (auto simp: reported_def sc_def GetMovedSegments_fields)
  with filter_mem_subseq [OF zn assms(2)] show "filter (\<lambda>s. s \<notin> reported) n = notMovedSegments sc"
    by simp
qed

text \<open>
  The moved and the inserted segments are taken from the new order, each at most
  once per occurrence, and the deleted segments from the previous order.
\<close>

lemma length_GetMovedSegments:
  "length (movedSegments (GetMovedSegments p n)) + length (insertedSegments (GetMovedSegments p n)) \<le> length n"
  "length (deletedSegments (GetMovedSegments p n)) \<le> length p"
proof -
  have "length (movedSegments (GetMovedSegments p n)) \<le> length (filter (\<lambda>s. s \<in> set p) n)"
    by (simp add: GetMovedSegments_fields(4) common_segments_def del: filter_filter)
  with sum_length_filter_compl [of "\<lambda>s. s \<in> set p" n]
  show "length (movedSegments (GetMovedSegments p n)) +
      length (insertedSegments (GetMovedSegments p n)) \<le> length n"
    by (simp add: GetMovedSegments_fields)
  show "length (deletedSegments (GetMovedSegments p n)) \<le> length p"
    by (simp add: GetMovedSegments_fields)
qed

text \<open>
  Two consequences of the contract for a sequence compared with itself: its only
  longest common subsequence is the sequence, and a partition whose not-moved list is
  the whole sequence has nothing moved, inserted or deleted.
\<close>

lemma is_lcs_same: "is_lcs zs xs xs \<longleftrightarrow> zs = xs"
proof
  assume "is_lcs zs xs xs"
  then have "subseq zs xs" and "length xs \<le> length zs" by (auto simp: is_lcs_def)
  with list_emb_length [of "(=)" zs xs] show "zs = xs" by (auto intro: subseq_same_length)
qed (auto simp: is_lcs_def dest: list_emb_length)

lemma is_partition_same:
  assumes "is_partition n n sc" and "notMovedSegments sc = n"
  shows "movedSegments sc = [] \<and> insertedSegments sc = [] \<and> deletedSegments sc = []"
proof -
  from assms(1) have u: "set (movedSegments sc) \<union> set (notMovedSegments sc) = set n"
    and i: "set (movedSegments sc) \<inter> set (notMovedSegments sc) = {}"
    and e: "insertedSegments sc = []" "deletedSegments sc = []"
    unfolding is_partition_def by simp_all
  from i have "set (movedSegments sc) \<inter> set n = {}" unfolding assms(2) .
  moreover from u have "set (movedSegments sc) \<subseteq> set n" by blast
  ultimately have "set (movedSegments sc) = {}" by (simp add: Int_absorb2)
  with e show ?thesis by simp
qed

lemma GetMovedSegments_same_set:
  assumes "set n = set p"
  shows "insertedSegments (GetMovedSegments p n) = []" "deletedSegments (GetMovedSegments p n) = []"
  using assms by (simp_all add: GetMovedSegments_fields)

lemma GetMovedSegments_example:
  "GetMovedSegments [''A'', ''B'', ''C'', ''D''] [''A'', ''C'', ''B'', ''D'', ''E''] =
     \<lparr>movedSegments = [''C''], notMovedSegments = [''A'', ''B'', ''D''],
      insertedSegments = [''E''], deletedSegments = []\<rparr>"
  by (simp add: GetMovedSegments_def common_segments_def)

end
