(* ===== verification/LCS_Table.thy ===== *)
theory LCS_Table
  imports Move_Set_Resolver
begin

text \<open>
  The longest common subsequence by a table, after the design notes of the
  specification: a dynamic-programming table over the index pairs of the two
  sequences, and a walk through the table that reconstructs the subsequence. Like
  \<open>Move_Set_Resolver\<close>, this theory is modelled from the specification; the
  resolver's module is not among the sources.

  \<^item> Entry \<open>(i, j)\<close> of \<open>lcs_table xs ys\<close> is the length of a longest common
    subsequence of \<open>xs\<close> from index \<open>i\<close> and \<open>ys\<close> from index \<open>j\<close>. The table
    is built from the last row up; \<open>lcs_row\<close> computes a row from the row below it,
    from the right.
  \<^item> \<open>backtrack\<close> walks from \<open>(i, j)\<close> towards the end of both sequences: on equal
    elements it keeps the element and moves diagonally, otherwise it moves to the
    neighbour with the larger entry, and on equal entries it stays in the row.
  \<^item> \<open>lcs_dp\<close> builds the table and walks from \<open>(0, 0)\<close>; \<open>GetMovedSegments_dp\<close>
    is the resolver with \<open>lcs_dp\<close> for \<open>lcs\<close>.

  The theory proves that the walk ends, that the table holds the lengths of the
  reference \<open>lcs\<close>, and that \<open>lcs_dp\<close> and the resolver built on it equal their
  references.
\<close>

section \<open>The table\<close>

fun lcs_row :: "'a \<Rightarrow> 'a list \<Rightarrow> nat list \<Rightarrow> nat list" where
  "lcs_row x [] below = [0]"
| "lcs_row x (y # ys) below =
     (let row = lcs_row x ys (tl below)
      in (if x = y then Suc (hd (tl below)) else max (hd below) (hd row)) # row)"

fun lcs_table :: "'a list \<Rightarrow> 'a list \<Rightarrow> nat list list" where
  "lcs_table [] ys = [replicate (Suc (length ys)) 0]"
| "lcs_table (x # xs) ys = (let rows = lcs_table xs ys in lcs_row x ys (hd rows) # rows)"

section \<open>The walk\<close>

function backtrack :: "'a list \<Rightarrow> 'a list \<Rightarrow> nat list list \<Rightarrow> nat \<Rightarrow> nat \<Rightarrow> 'a list" where
  "backtrack xs ys T i j =
     (if i < length xs \<and> j < length ys then
        if xs ! i = ys ! j then xs ! i # backtrack xs ys T (Suc i) (Suc j)
        else if T ! Suc i ! j \<le> T ! i ! Suc j then backtrack xs ys T i (Suc j)
        else backtrack xs ys T (Suc i) j
      else [])"
  by pat_completeness auto

termination backtrack
  by (relation "measure (\<lambda>(xs, ys, T, i, j). (length xs - i) + (length ys - j))") auto

definition lcs_dp :: "'a list \<Rightarrow> 'a list \<Rightarrow> 'a list" where
  "lcs_dp xs ys = backtrack xs ys (lcs_table xs ys) 0 0"

definition GetMovedSegments_dp :: resolver where
  "GetMovedSegments_dp prevSegments newSegments =
     (let insertedSegments = filter (\<lambda>s. s \<notin> set prevSegments) newSegments;
          deletedSegments = filter (\<lambda>s. s \<notin> set newSegments) prevSegments;
          notMovedSegments =
            lcs_dp (common_segments prevSegments newSegments) (common_segments newSegments prevSegments);
          movedSegments =
            filter (\<lambda>s. s \<notin> set notMovedSegments) (common_segments newSegments prevSegments)
      in \<lparr>movedSegments = movedSegments, notMovedSegments = notMovedSegments,
          insertedSegments = insertedSegments, deletedSegments = deletedSegments\<rparr>)"

section \<open>What the table holds\<close>

fun tails :: "'a list \<Rightarrow> 'a list list" where
  "tails [] = [[]]"
| "tails (x # xs) = (x # xs) # tails xs"

definition lcs_lengths :: "'a list \<Rightarrow> 'a list \<Rightarrow> nat list" where
  "lcs_lengths xs ys = map (\<lambda>zs. length (lcs xs zs)) (tails ys)"

declare backtrack.simps [simp del]

lemma length_tails [simp]: "length (tails xs) = Suc (length xs)"
  by (induction xs) simp_all

lemma nth_tails: "i \<le> length xs \<Longrightarrow> tails xs ! i = drop i xs"
  by (induction xs arbitrary: i) (auto simp: nth_Cons split: nat.splits)

lemma hd_tails [simp]: "hd (tails xs) = xs"
  by (cases xs) simp_all

lemma tails_neq_Nil [simp]: "tails xs \<noteq> []"
  by (cases xs) simp_all

lemma lcs_Nil_right [simp]: "lcs xs [] = []"
  by (cases xs) simp_all

lemma lcs_lengths_Nil: "lcs_lengths [] ys = replicate (Suc (length ys)) 0"
  by (induction ys) (simp_all add: lcs_lengths_def)

lemma lcs_lengths_Cons:
  "lcs_lengths xs (y # ys) = length (lcs xs (y # ys)) # lcs_lengths xs ys"
  by (simp add: lcs_lengths_def)

lemma hd_lcs_lengths [simp]: "hd (lcs_lengths xs ys) = length (lcs xs ys)"
  by (cases ys) (simp_all add: lcs_lengths_def)

lemma lcs_row_lengths: "lcs_row x ys (lcs_lengths xs ys) = lcs_lengths (x # xs) ys"
proof (induction ys)
  case Nil
  show ?case by (simp add: lcs_lengths_def)
next
  case (Cons y ys)
  then show ?case by (simp add: lcs_lengths_Cons Let_def max.commute)
qed

lemma lcs_table_lengths: "lcs_table xs ys = map (\<lambda>ws. lcs_lengths ws ys) (tails xs)"
proof (induction xs)
  case Nil
  show ?case by (simp add: lcs_lengths_Nil)
next
  case (Cons x xs)
  then show ?case by (simp add: Let_def hd_map lcs_row_lengths)
qed

lemma lcs_table_nth:
  assumes "i \<le> length xs" and "j \<le> length ys"
  shows "lcs_table xs ys ! i ! j = length (lcs (drop i xs) (drop j ys))"
  using assms by (simp add: lcs_table_lengths lcs_lengths_def nth_tails)

section \<open>The walk follows the reference\<close>

lemma backtrack_lcs:
  assumes "i \<le> length xs" and "j \<le> length ys"
  shows "backtrack xs ys (lcs_table xs ys) i j = lcs (drop i xs) (drop j ys)"
  using assms
proof (induction xs ys "lcs_table xs ys" i j rule: backtrack.induct)
  case (1 xs ys i j)
  show ?case
  proof (cases "i < length xs \<and> j < length ys")
    case True
    then have d: "drop i xs = xs ! i # drop (Suc i) xs" "drop j ys = ys ! j # drop (Suc j) ys"
      by (simp_all add: Cons_nth_drop_Suc)
    from True have t: "lcs_table xs ys ! Suc i ! j = length (lcs (drop (Suc i) xs) (drop j ys))"
      "lcs_table xs ys ! i ! Suc j = length (lcs (drop i xs) (drop (Suc j) ys))"
      by (simp_all add: lcs_table_nth)
    from True 1 show ?thesis
      by (subst backtrack.simps) (simp add: d(1) [symmetric] d(2) [symmetric] t, simp add: d)
  next
    case False
    with 1 have "drop i xs = [] \<or> drop j ys = []" by auto
    with False show ?thesis by (subst backtrack.simps) auto
  qed
qed

lemma lcs_dp_eq: "lcs_dp xs ys = lcs xs ys"
  using backtrack_lcs [of 0 xs 0 ys] by (simp add: lcs_dp_def)

lemma GetMovedSegments_dp_eq: "GetMovedSegments_dp = GetMovedSegments"
  by (intro ext) (simp add: GetMovedSegments_dp_def GetMovedSegments_def lcs_dp_eq)

section \<open>The example of the specification\<close>

lemma lcs_table_example:
  "lcs_table [''A'', ''B'', ''C'', ''D''] [''A'', ''C'', ''B'', ''D''] =
     [[3, 2, 2, 1, 0], [2, 2, 2, 1, 0], [2, 2, 1, 1, 0], [1, 1, 1, 1, 0], [0, 0, 0, 0, 0]]"
  by code_simp

lemma lcs_dp_example:
  "lcs_dp [''A'', ''B'', ''C'', ''D''] [''A'', ''C'', ''B'', ''D''] = [''A'', ''B'', ''D'']"
  by code_simp

end
