(* ===== verification/Diff_Playlist.thy ===== *)
theory Diff_Playlist
  imports Move_Set_Resolver
begin

text \<open>
  The playlist differ, \<^verbatim>\<open>DiffPlaylist\<close> of \<^verbatim>\<open>src/src/helpers/DiffPlaylist.ts\<close>.

  The function keeps two mutable locals, \<^verbatim>\<open>changes\<close> and \<^verbatim>\<open>segmentChanges\<close>, and
  runs two loops over them. The model passes them as one \<open>PlaylistDiff\<close> record:
  \<^item> \<open>deleted_step\<close> is the body of the first loop (over \<^verbatim>\<open>previous\<close>),
  \<^item> \<open>current_step\<close> is the body of the second loop (over \<^verbatim>\<open>playlist\<close>),
  \<^item> \<open>DiffPlaylist_with\<close> runs the first loop from the empty state, then the second,
    and returns the state.
  The resolver \<^verbatim>\<open>GetMovedSegments\<close> is imported by the source from a module outside
  the sources, so the differ is stated over any function of the resolver's type
  (\<open>resolver\<close>); theory \<open>Move_Set_Resolver\<close> supplies the instance.

  The second part states what the loops compute without a state: the change log as
  a list expression (\<open>deleted_rundowns\<close>, \<open>rundown_changes\<close>, \<open>changes_spec\<close>),
  the map as a function of a rundown id (\<open>summary_spec\<close>) and its keys in
  iteration order (\<open>keys_spec\<close>); \<open>summary_log\<close> is the list of segment records
  that an entry of the map stands for, and \<open>mentioned\<close> the set of segments of a
  rundown that a log has a record for. The lemmas of this theory prove that the loops
  refine these and that each iteration keeps the state invariant \<open>diff_inv\<close>
  (theory \<open>Diff_Run\<close> proves it of every state of a run); theory \<open>Diff_Log\<close>
  derives the properties of the log and of the map from them.
\<close>

section \<open>The operations\<close>

definition find_rundown ::
  "RundownId \<Rightarrow> 'a ResolvedPlaylist \<Rightarrow> 'a ResolvedPlaylistRundown_scheme option" where
  "find_rundown rid playlist = List.find (\<lambda>p. rundownId p = rid) playlist"

definition init_diff :: PlaylistDiff where
  "init_diff = \<lparr>changes = [], segmentChanges = []\<rparr>"

definition deleted_step ::
  "'a ResolvedPlaylist \<Rightarrow> 'b ResolvedPlaylistRundown_scheme \<Rightarrow> PlaylistDiff \<Rightarrow> PlaylistDiff" where
  "deleted_step playlist rundown st =
     (case find_rundown (rundownId rundown) playlist of
        None \<Rightarrow>
          \<lparr>changes = push (RundownDeleted (rundownId rundown)) (changes st),
           segmentChanges = js_set (rundownId rundown) no_segment_changes (segmentChanges st)\<rparr>
      | Some newRundown \<Rightarrow> st)"

definition emit_segment_changes ::
  "RundownId \<Rightarrow> SegmentChanges \<Rightarrow> PlaylistChange list \<Rightarrow> PlaylistChange list" where
  "emit_segment_changes rid sc out =
     push_each (SegmentDeleted rid) (deletedSegments sc)
       (push_each (SegmentCreated rid) (insertedSegments sc)
          (push_each (SegmentMoved rid) (movedSegments sc) out))"

definition current_step ::
  "resolver \<Rightarrow> 'a ResolvedPlaylist \<Rightarrow> 'b ResolvedPlaylistRundown_scheme \<Rightarrow>
     PlaylistDiff \<Rightarrow> PlaylistDiff" where
  "current_step getMoved previous rundown st =
     (case find_rundown (rundownId rundown) previous of
        None \<Rightarrow>
          \<lparr>changes = push (RundownCreated (rundownId rundown)) (changes st),
           segmentChanges = js_set (rundownId rundown) no_segment_changes (segmentChanges st)\<rparr>
      | Some prevRundown \<Rightarrow>
          (let sc = getMoved (segments prevRundown) (segments rundown) in
           \<lparr>changes = emit_segment_changes (rundownId rundown) sc (changes st),
            segmentChanges =
              js_set (rundownId rundown)
                \<lparr>movedSegments = movedSegments sc, notMovedSegments = notMovedSegments sc,
                 insertedSegments = insertedSegments sc, deletedSegments = deletedSegments sc\<rparr>
                (segmentChanges st)\<rparr>))"

definition DiffPlaylist_with ::
  "resolver \<Rightarrow> 'a ResolvedPlaylist \<Rightarrow> 'b ResolvedPlaylist \<Rightarrow> PlaylistDiff" where
  "DiffPlaylist_with getMoved playlist previous =
     fold (current_step getMoved previous) playlist
       (fold (deleted_step playlist) previous init_diff)"

definition DiffPlaylist :: "'a ResolvedPlaylist \<Rightarrow> 'b ResolvedPlaylist \<Rightarrow> PlaylistDiff" where
  "DiffPlaylist playlist previous = DiffPlaylist_with GetMovedSegments playlist previous"

declare find_rundown_def [gw_defs] init_diff_def [gw_defs] deleted_step_def [gw_defs]
  emit_segment_changes_def [gw_defs] current_step_def [gw_defs]

section \<open>What the loops compute\<close>

definition deleted_rundowns :: "'a ResolvedPlaylist \<Rightarrow> 'b ResolvedPlaylist \<Rightarrow> RundownId list" where
  "deleted_rundowns playlist previous =
     filter (\<lambda>rid. rid \<notin> set (rundownIds playlist)) (rundownIds previous)"

definition segment_changes_of :: "RundownId \<Rightarrow> SegmentChanges \<Rightarrow> PlaylistChange list" where
  "segment_changes_of rid sc =
     map (SegmentMoved rid) (movedSegments sc) @
     map (SegmentCreated rid) (insertedSegments sc) @
     map (SegmentDeleted rid) (deletedSegments sc)"

definition rundown_summary ::
  "resolver \<Rightarrow> 'a ResolvedPlaylist \<Rightarrow> 'b ResolvedPlaylistRundown_scheme \<Rightarrow> SegmentChanges" where
  "rundown_summary getMoved previous rundown =
     (case find_rundown (rundownId rundown) previous of
        None \<Rightarrow> no_segment_changes
      | Some prevRundown \<Rightarrow> getMoved (segments prevRundown) (segments rundown))"

definition rundown_changes ::
  "resolver \<Rightarrow> 'a ResolvedPlaylist \<Rightarrow> 'b ResolvedPlaylistRundown_scheme \<Rightarrow> PlaylistChange list" where
  "rundown_changes getMoved previous rundown =
     (case find_rundown (rundownId rundown) previous of
        None \<Rightarrow> [RundownCreated (rundownId rundown)]
      | Some prevRundown \<Rightarrow>
          segment_changes_of (rundownId rundown) (getMoved (segments prevRundown) (segments rundown)))"

definition changes_spec ::
  "resolver \<Rightarrow> 'a ResolvedPlaylist \<Rightarrow> 'b ResolvedPlaylist \<Rightarrow> PlaylistChange list" where
  "changes_spec getMoved playlist previous =
     map RundownDeleted (deleted_rundowns playlist previous) @
     concat (map (rundown_changes getMoved previous) playlist)"

definition summary_spec ::
  "resolver \<Rightarrow> 'a ResolvedPlaylist \<Rightarrow> 'b ResolvedPlaylist \<Rightarrow> RundownId \<Rightarrow> SegmentChanges option" where
  "summary_spec getMoved playlist previous rid =
     (case find_rundown rid (rev playlist) of
        Some rundown \<Rightarrow> Some (rundown_summary getMoved previous rundown)
      | None \<Rightarrow> if rid \<in> set (rundownIds previous) then Some no_segment_changes else None)"

definition keys_spec :: "'a ResolvedPlaylist \<Rightarrow> 'b ResolvedPlaylist \<Rightarrow> RundownId list" where
  "keys_spec playlist previous =
     first_occs (deleted_rundowns playlist previous) @ first_occs (rundownIds playlist)"

definition rundown_decision ::
  "resolver \<Rightarrow> 'a ResolvedPlaylist \<Rightarrow> 'b ResolvedPlaylist \<Rightarrow> RundownId \<Rightarrow> PlaylistChange list" where
  "rundown_decision getMoved playlist previous rid =
     (case find_rundown rid playlist of
        None \<Rightarrow> if rid \<in> set (rundownIds previous) then [RundownDeleted rid] else []
      | Some rundown \<Rightarrow> rundown_changes getMoved previous rundown)"

definition summary_log :: "PlaylistDiff \<Rightarrow> RundownId \<Rightarrow> PlaylistChange list" where
  "summary_log d rid =
     (case js_get (segmentChanges d) rid of None \<Rightarrow> [] | Some sc \<Rightarrow> segment_changes_of rid sc)"

definition mentioned :: "PlaylistChange list \<Rightarrow> RundownId \<Rightarrow> SegmentId set" where
  "mentioned log rid =
     set (List.map_filter (\<lambda>c. if rundownExternalId c = rid then segmentExternalId c else None) log)"

definition matched_size :: "'a ResolvedPlaylist \<Rightarrow> 'b ResolvedPlaylistRundown_scheme \<Rightarrow> nat" where
  "matched_size previous r =
     (case find_rundown (rundownId r) previous of None \<Rightarrow> 0 | Some p \<Rightarrow> length (segments p))"

definition diff_inv :: "PlaylistDiff \<Rightarrow> bool" where
  "diff_inv st \<longleftrightarrow>
     distinct (js_keys (segmentChanges st)) \<and>
     rundownExternalId ` set (changes st) \<subseteq> set (js_keys (segmentChanges st)) \<and>
     PlaylistChangeSegmentChanged \<notin> change_type ` set (changes st)"

section \<open>Example playlists\<close>

text \<open>
  The examples of the specification's section 8 in one pair of snapshots: rundown
  \<open>R1\<close> is in both with its segments reordered and one added, \<open>R0\<close> is only in
  the previous snapshot, \<open>R2\<close> only in the current one.
\<close>

definition ex_previous :: "unit ResolvedPlaylist" where
  "ex_previous =
     [\<lparr>rundownId = ''R1'', segments = [''A'', ''B'', ''C'', ''D'']\<rparr>,
      \<lparr>rundownId = ''R0'', segments = [''X'']\<rparr>]"

definition ex_playlist :: "unit ResolvedPlaylist" where
  "ex_playlist =
     [\<lparr>rundownId = ''R1'', segments = [''A'', ''C'', ''B'', ''D'', ''E'']\<rparr>,
      \<lparr>rundownId = ''R2'', segments = [''P'', ''Q'', ''R'']\<rparr>]"

definition ex_diff :: PlaylistDiff where
  "ex_diff =
     \<lparr>changes =
        [RundownDeleted ''R0'', SegmentMoved ''R1'' ''C'', SegmentCreated ''R1'' ''E'',
         RundownCreated ''R2''],
      segmentChanges =
        [(''R0'', no_segment_changes),
         (''R1'', \<lparr>movedSegments = [''C''], notMovedSegments = [''A'', ''B'', ''D''],
                   insertedSegments = [''E''], deletedSegments = []\<rparr>),
         (''R2'', no_segment_changes)]\<rparr>"


section \<open>The rundown lookup\<close>

lemma find_rundown_None_iff: "find_rundown rid playlist = None \<longleftrightarrow> rid \<notin> set (rundownIds playlist)"
  by (auto simp: find_rundown_def find_None_iff)

lemma find_rundown_SomeD:
  "find_rundown rid playlist = Some r \<Longrightarrow> rundownId r = rid \<and> r \<in> set playlist"
  unfolding find_rundown_def by (drule find_SomeD) simp

lemma find_rundown_Some_ex:
  "rid \<in> set (rundownIds playlist) \<Longrightarrow> \<exists>r. find_rundown rid playlist = Some r"
  by (cases "find_rundown rid playlist") (simp_all add: find_rundown_None_iff)

lemma find_rundown_rev_None_iff:
  "find_rundown rid (rev playlist) = None \<longleftrightarrow> rid \<notin> set (rundownIds playlist)"
  by (simp add: find_rundown_None_iff rev_map [symmetric])

lemma find_rundown_cases [case_names absent present]:
  obtains "find_rundown rid playlist = None" and "rid \<notin> set (rundownIds playlist)"
  | r where "find_rundown rid playlist = Some r" and "rundownId r = rid"
      and "r \<in> set playlist" and "rid \<in> set (rundownIds playlist)"
proof (cases "find_rundown rid playlist")
  case None
  then show ?thesis using that(1) by (simp add: find_rundown_None_iff)
next
  case (Some r)
  then show ?thesis using that(2) [of r] find_rundown_SomeD [OF Some] by auto
qed

section \<open>What one record of a rundown's changes looks like\<close>

lemma rundownExternalId_segment_changes_of:
  "c \<in> set (segment_changes_of rid sc) \<Longrightarrow> rundownExternalId c = rid"
  by (auto simp: segment_changes_of_def)

lemma is_segment_change_segment_changes_of:
  "c \<in> set (segment_changes_of rid sc) \<Longrightarrow> is_segment_change c"
  by (auto simp: segment_changes_of_def gw_defs)

lemma change_type_segment_changes_of:
  "c \<in> set (segment_changes_of rid sc) \<Longrightarrow> change_type c \<noteq> PlaylistChangeSegmentChanged"
  by (auto simp: segment_changes_of_def)

lemma rundown_changes_absent:
  "rundownId r \<notin> set (rundownIds previous) \<Longrightarrow>
     rundown_changes g previous r = [RundownCreated (rundownId r)]"
  by (cases "rundownId r" previous rule: find_rundown_cases) (auto simp: rundown_changes_def)

lemma rundownExternalId_rundown_changes:
  "c \<in> set (rundown_changes g previous r) \<Longrightarrow> rundownExternalId c = rundownId r"
  by (auto simp: rundown_changes_def split: option.splits dest: rundownExternalId_segment_changes_of)

lemma change_type_rundown_changes:
  "c \<in> set (rundown_changes g previous r) \<Longrightarrow> change_type c \<noteq> PlaylistChangeSegmentChanged"
  by (auto simp: rundown_changes_def split: option.splits dest: change_type_segment_changes_of)

lemma RundownDeleted_notin_rundown_changes:
  "RundownDeleted rid \<notin> set (rundown_changes g previous r)"
  by (auto simp: rundown_changes_def segment_changes_of_def split: option.splits)

lemma RundownCreated_in_rundown_changes:
  "RundownCreated rid \<in> set (rundown_changes g previous r) \<longleftrightarrow>
     rundownId r = rid \<and> rid \<notin> set (rundownIds previous)"
  by (cases "rundownId r" previous rule: find_rundown_cases)
     (auto simp: rundown_changes_def segment_changes_of_def)

lemma filter_rundown_changes:
  "filter (\<lambda>c. rundownExternalId c = rid) (rundown_changes g previous r) =
     (if rundownId r = rid then rundown_changes g previous r else [])"
  by (auto simp: filter_empty_conv dest: rundownExternalId_rundown_changes intro: filter_True)

lemma filter_concat_rundown_changes:
  "filter (\<lambda>c. rundownExternalId c = rid) (concat (map (rundown_changes g previous) playlist)) =
     concat (map (rundown_changes g previous) (filter (\<lambda>r. rundownId r = rid) playlist))"
  by (induction playlist) (simp_all add: filter_rundown_changes)

section \<open>The deleted rundowns\<close>

lemma set_deleted_rundowns [simp]:
  "set (deleted_rundowns playlist previous) = set (rundownIds previous) - set (rundownIds playlist)"
  by (auto simp: deleted_rundowns_def)

lemma distinct_deleted_rundowns:
  "distinct (rundownIds previous) \<Longrightarrow> distinct (deleted_rundowns playlist previous)"
  by (simp add: deleted_rundowns_def)

lemma deleted_rundowns_disjoint:
  "set (deleted_rundowns playlist previous) \<inter> set (rundownIds playlist) = {}"
  by auto

lemma filter_deleted_rundowns:
  assumes "distinct (rundownIds previous)"
  shows "filter (\<lambda>c. rundownExternalId c = rid)
           (map RundownDeleted (deleted_rundowns playlist previous)) =
         (if rid \<in> set (rundownIds previous) \<and> rid \<notin> set (rundownIds playlist)
          then [RundownDeleted rid] else [])"
proof -
  have "filter (\<lambda>c. rundownExternalId c = rid)
          (map RundownDeleted (deleted_rundowns playlist previous)) =
        map RundownDeleted (filter (\<lambda>k. k = rid) (deleted_rundowns playlist previous))"
    by (simp add: filter_map comp_def)
  then show ?thesis
    using distinct_deleted_rundowns [OF assms, of playlist]
    by (simp add: filter_eq_distinct)
qed

section \<open>One iteration of each loop\<close>

text \<open>
  The effect of one iteration on each of the two locals. The first loop adds a
  \<open>RundownDeleted\<close> record and an empty entry exactly for a rundown the playlist
  lacks; the second loop appends \<open>rundown_changes\<close> and sets the entry of the
  rundown to \<open>rundown_summary\<close>.
\<close>

lemmas step_defs = deleted_step_def current_step_def emit_segment_changes_def init_diff_def

lemma changes_deleted_step:
  "changes (deleted_step playlist r st) =
     changes st @ (if rundownId r \<in> set (rundownIds playlist) then [] else [RundownDeleted (rundownId r)])"
  by (cases "rundownId r" playlist rule: find_rundown_cases) (simp_all add: step_defs push_def)

lemma segmentChanges_deleted_step:
  "segmentChanges (deleted_step playlist r st) =
     (if rundownId r \<in> set (rundownIds playlist) then segmentChanges st
      else js_set (rundownId r) no_segment_changes (segmentChanges st))"
  by (cases "rundownId r" playlist rule: find_rundown_cases) (simp_all add: step_defs)

lemma changes_current_step:
  "changes (current_step g previous r st) = changes st @ rundown_changes g previous r"
  by (simp add: step_defs gw_simps rundown_changes_def segment_changes_of_def push_def Let_def
      split: option.splits)

lemma segmentChanges_current_step:
  "segmentChanges (current_step g previous r st) =
     js_set (rundownId r) (rundown_summary g previous r) (segmentChanges st)"
  by (simp add: step_defs rundown_summary_def Let_def split: option.splits)

lemmas step_simps = changes_deleted_step segmentChanges_deleted_step
  changes_current_step segmentChanges_current_step

section \<open>The two loops\<close>

lemma changes_fold_deleted:
  "changes (fold (deleted_step playlist) previous st) =
     changes st @ map RundownDeleted (deleted_rundowns playlist previous)"
  by (induction previous arbitrary: st) (simp_all add: step_simps deleted_rundowns_def)

lemma segmentChanges_fold_deleted:
  "segmentChanges (fold (deleted_step playlist) previous st) =
     fold (\<lambda>rid. js_set rid no_segment_changes) (deleted_rundowns playlist previous)
       (segmentChanges st)"
  by (induction previous arbitrary: st) (simp_all add: step_simps deleted_rundowns_def)

lemma changes_fold_current:
  "changes (fold (current_step g previous) playlist st) =
     changes st @ concat (map (rundown_changes g previous) playlist)"
  by (induction playlist arbitrary: st) (simp_all add: step_simps)

lemma segmentChanges_fold_current:
  "segmentChanges (fold (current_step g previous) playlist st) =
     fold (\<lambda>r. js_set (rundownId r) (rundown_summary g previous r)) playlist (segmentChanges st)"
  by (induction playlist arbitrary: st) (simp_all add: step_simps)

lemma js_get_fold_deleted:
  "js_get (segmentChanges (fold (deleted_step playlist) previous st)) rid =
     (if rid \<in> set (deleted_rundowns playlist previous) then Some no_segment_changes
      else js_get (segmentChanges st) rid)"
  by (simp only: segmentChanges_fold_deleted map_of_fold_js_set_const)

lemma js_get_fold_current:
  "js_get (segmentChanges (fold (current_step g previous) playlist st)) rid =
     (case find_rundown rid (rev playlist) of
        Some r \<Rightarrow> Some (rundown_summary g previous r)
      | None \<Rightarrow> js_get (segmentChanges st) rid)"
  by (simp add: segmentChanges_fold_current map_of_fold_js_set find_rundown_def)

lemma js_keys_fold_deleted:
  "js_keys (segmentChanges (fold (deleted_step playlist) previous st)) =
     fold add_key (deleted_rundowns playlist previous) (js_keys (segmentChanges st))"
  using js_keys_fold_js_set [of "\<lambda>rid. rid" "\<lambda>rid. no_segment_changes"]
  by (simp add: segmentChanges_fold_deleted)

lemma js_keys_fold_current:
  "js_keys (segmentChanges (fold (current_step g previous) playlist st)) =
     fold add_key (rundownIds playlist) (js_keys (segmentChanges st))"
  by (simp add: segmentChanges_fold_current js_keys_fold_js_set)

lemmas diff_simps = DiffPlaylist_with_def changes_fold_deleted changes_fold_current init_diff_def
lemmas js_get_diff = DiffPlaylist_with_def js_get_fold_current js_get_fold_deleted init_diff_def
lemmas js_keys_diff = DiffPlaylist_with_def js_keys_fold_current js_keys_fold_deleted init_diff_def

section \<open>The example evaluated\<close>

lemma ex_distinct: "distinct (rundownIds ex_playlist)" "distinct (rundownIds ex_previous)"
  by (simp_all add: ex_playlist_def ex_previous_def)

lemma ex_eval: "DiffPlaylist_with GetMovedSegments ex_playlist ex_previous = ex_diff"
  by (simp add: DiffPlaylist_with_def gw_defs ex_playlist_def ex_previous_def ex_diff_def
      GetMovedSegments_example push_def push_each_eq)

lemma ex_changes [simp]:
  "changes (DiffPlaylist_with GetMovedSegments ex_playlist ex_previous) =
     [RundownDeleted ''R0'', SegmentMoved ''R1'' ''C'', SegmentCreated ''R1'' ''E'',
      RundownCreated ''R2'']"
  by (simp add: ex_eval ex_diff_def)

section \<open>The loops refine the specification\<close>

text \<open>
  \<^bold>\<open>C1.\<close> For every resolver and every pair of playlists, the change log that
  \<^verbatim>\<open>DiffPlaylist\<close> returns is \<open>changes_spec\<close>: one \<open>RundownDeleted\<close> record for each
  rundown of \<^verbatim>\<open>previous\<close> whose id the playlist lacks, in the order of \<^verbatim>\<open>previous\<close>,
  followed, for each rundown of the playlist in order, by one \<open>RundownCreated\<close>
  record if \<^verbatim>\<open>previous\<close> lacks its id, and otherwise by the resolver's moved, then
  inserted, then deleted segments as \<open>SegmentMoved\<close>, \<open>SegmentCreated\<close> and
  \<open>SegmentDeleted\<close> records.
\<close>

theorem DiffPlaylist_changes:
  "changes (DiffPlaylist_with g playlist previous) = changes_spec g playlist previous"
  by (simp add: diff_simps changes_spec_def)

text \<open>
  \<^bold>\<open>C3.\<close> Reading the returned \<^verbatim>\<open>segmentChanges\<close> map at any rundown id gives
  \<open>summary_spec\<close>: the summary of the last rundown of the playlist with that id
  (the resolver's result against the first rundown of \<^verbatim>\<open>previous\<close> with the id, or
  four empty lists if there is none); four empty lists for an id that only
  \<^verbatim>\<open>previous\<close> has; nothing for any other id.
\<close>

theorem DiffPlaylist_summary:
  "js_get (segmentChanges (DiffPlaylist_with g playlist previous)) = summary_spec g playlist previous"
proof
  fix rid
  show "js_get (segmentChanges (DiffPlaylist_with g playlist previous)) rid =
      summary_spec g playlist previous rid"
    by (cases rid "rev playlist" rule: find_rundown_cases)
       (auto simp: js_get_diff summary_spec_def rev_map [symmetric])
qed

text \<open>
  \<^bold>\<open>C32.\<close> The keys of the returned map, in iteration order, are the ids of the
  deleted rundowns in the order of \<^verbatim>\<open>previous\<close>, then the ids of the playlist in
  its order, each id at its first occurrence only.
\<close>

theorem DiffPlaylist_keys:
  "js_keys (segmentChanges (DiffPlaylist_with g playlist previous)) = keys_spec playlist previous"
proof -
  have "js_keys (segmentChanges (DiffPlaylist_with g playlist previous)) =
      fold add_key (deleted_rundowns playlist previous @ rundownIds playlist) []"
    by (simp add: js_keys_diff)
  then show ?thesis
    by (simp only: keys_spec_def fold_add_key
        first_occs_append_disjoint [OF deleted_rundowns_disjoint])
qed

text \<open>
  \<^bold>\<open>C17.\<close> Completeness of the summary: the returned map has an entry for exactly
  the rundown ids that occur in the playlist or in \<^verbatim>\<open>previous\<close>.
\<close>

theorem DiffPlaylist_complete:
  "set (js_keys (segmentChanges (DiffPlaylist_with g playlist previous))) =
     set (rundownIds playlist) \<union> set (rundownIds previous)"
  by (auto simp: js_keys_diff)

section \<open>The invariant of the loop state\<close>

lemma diff_inv_init: "diff_inv init_diff"
  by (simp add: diff_inv_def init_diff_def)

lemma diff_inv_deleted_step: "diff_inv st \<Longrightarrow> diff_inv (deleted_step playlist r st)"
  by (auto simp: diff_inv_def step_simps distinct_update)

lemma diff_inv_current_step: "diff_inv st \<Longrightarrow> diff_inv (current_step g previous r st)"
  by (auto simp: diff_inv_def step_simps distinct_update
      dest: rundownExternalId_rundown_changes change_type_rundown_changes)

end
