(* ===== verification/Diff_Log.thy ===== *)
theory Diff_Log
  imports Diff_Playlist
begin

text \<open>
  Properties of the change log and of the summary map that \<^verbatim>\<open>DiffPlaylist\<close> returns,
  derived from the refinement lemmas of \<open>Diff_Playlist\<close>. Most hold for every
  resolver.

  \<^item> The records of the log: where a record comes from (\<open>in_changes_cases\<close>), which
    rundown-level records the log holds, that a rundown reported at the rundown level
    has no other record, and the log against an empty playlist.
  \<^item> The entries of the map for a rundown that is deleted, created or present in
    both playlists.
  \<^item> The order of the log: deleted rundowns first, and the records grouped by
    rundown in the order of the keys of the map.
  \<^item> The records of one rundown: with distinct rundown ids they are one decision
    (\<open>rundown_decision\<close>), and the segment records among them are the ones the
    map's entry for the rundown stands for (\<open>summary_log\<close>); the segments of a
    rundown that the log mentions are the resolver's moved, inserted and deleted ones.
  \<^item> The size of the log, the fields of a rundown the differ reads
    (\<open>core_rundown\<close>), and the targets of the records, which are pairwise different
    for well-formed playlists and the resolver of \<open>Move_Set_Resolver\<close>.
\<close>

section \<open>The records of the log\<close>

text \<open>
  Every record of the log is of one of three kinds: the deletion of a rundown that
  only \<^verbatim>\<open>previous\<close> has, the creation of a rundown that only the playlist has, or a
  segment record of a rundown that both have.
\<close>

lemma in_changes_cases [consumes 1, case_names deleted created segment]:
  assumes "c \<in> set (changes (DiffPlaylist_with g playlist previous))"
  obtains "c = RundownDeleted (rundownExternalId c)"
      and "rundownExternalId c \<in> set (rundownIds previous)"
      and "rundownExternalId c \<notin> set (rundownIds playlist)"
  | "c = RundownCreated (rundownExternalId c)"
      and "rundownExternalId c \<in> set (rundownIds playlist)"
      and "rundownExternalId c \<notin> set (rundownIds previous)"
  | r p where "r \<in> set playlist" and "find_rundown (rundownId r) previous = Some p"
      and "rundownExternalId c = rundownId r"
      and "c \<in> set (segment_changes_of (rundownId r) (g (segments p) (segments r)))"
      and "is_segment_change c"
      and "rundownExternalId c \<in> set (rundownIds playlist)"
      and "rundownExternalId c \<in> set (rundownIds previous)"
proof -
  from assms consider rid where "c = RundownDeleted rid" "rid \<in> set (deleted_rundowns playlist previous)"
    | r where "r \<in> set playlist" "c \<in> set (rundown_changes g previous r)"
    by (auto simp: diff_simps)
  then show ?thesis
  proof cases
    case 1
    then show ?thesis using that(1) by simp
  next
    case 2
    show ?thesis
    proof (cases "rundownId r" previous rule: find_rundown_cases)
      case absent
      with 2 show ?thesis using that(2) by (simp add: rundown_changes_absent)
    next
      case (present p)
      with 2 have "c \<in> set (segment_changes_of (rundownId r) (g (segments p) (segments r)))"
        by (simp add: rundown_changes_def)
      with 2 present show ?thesis
        using that(3) [of r p]
        by (auto dest: rundownExternalId_segment_changes_of is_segment_change_segment_changes_of)
    qed
  qed
qed

text \<open>
  \<open>SegmentChanged\<close> is never emitted: no record of the log has the type
  \<open>PlaylistChangeSegmentChanged\<close>, whatever the resolver returns.
\<close>

lemma no_SegmentChanged:
  "PlaylistChangeSegmentChanged \<notin>
     change_type ` set (changes (DiffPlaylist_with g playlist previous))"
proof
  assume "PlaylistChangeSegmentChanged \<in>
    change_type ` set (changes (DiffPlaylist_with g playlist previous))"
  then obtain c where "c \<in> set (changes (DiffPlaylist_with g playlist previous))"
    and "change_type c = PlaylistChangeSegmentChanged" by auto
  then show False
    by (cases rule: in_changes_cases) (auto simp: gw_simps dest: change_type_segment_changes_of)
qed

lemma RundownDeleted_in_changes:
  "RundownDeleted rid \<in> set (changes (DiffPlaylist_with g playlist previous)) \<longleftrightarrow>
     rid \<in> set (rundownIds previous) \<and> rid \<notin> set (rundownIds playlist)"
  by (auto simp: diff_simps RundownDeleted_notin_rundown_changes)

lemma RundownCreated_in_changes:
  "RundownCreated rid \<in> set (changes (DiffPlaylist_with g playlist previous)) \<longleftrightarrow>
     rid \<in> set (rundownIds playlist) \<and> rid \<notin> set (rundownIds previous)"
  by (auto simp: diff_simps RundownCreated_in_rundown_changes)

lemma SegmentChanged_notin_changes:
  "SegmentChanged rid s \<notin> set (changes (DiffPlaylist_with g playlist previous))"
  by (auto simp: diff_simps dest: change_type_rundown_changes)

text \<open>
  \<^bold>\<open>C33.\<close> The rundown-level records say exactly what happened to the rundowns:
  the log holds a \<open>RundownDeleted\<close> record for a rundown id exactly when the id
  occurs in \<^verbatim>\<open>previous\<close> and not in the playlist, and a \<open>RundownCreated\<close> record
  exactly when the id occurs in the playlist and not in \<^verbatim>\<open>previous\<close>.
\<close>

theorem rundown_records_iff:
  "(RundownDeleted rid \<in> set (changes (DiffPlaylist_with g playlist previous)) \<longleftrightarrow>
      rid \<in> set (rundownIds previous) \<and> rid \<notin> set (rundownIds playlist)) \<and>
   (RundownCreated rid \<in> set (changes (DiffPlaylist_with g playlist previous)) \<longleftrightarrow>
      rid \<in> set (rundownIds playlist) \<and> rid \<notin> set (rundownIds previous))"
  by (auto simp: diff_simps RundownDeleted_notin_rundown_changes RundownCreated_in_rundown_changes)

text \<open>
  \<^bold>\<open>C34.\<close> The first and the last snapshot. Against an empty \<^verbatim>\<open>previous\<close> the log
  is one \<open>RundownCreated\<close> record per rundown of the playlist, in order, and no
  segment record; against an empty playlist it is one \<open>RundownDeleted\<close> record per
  rundown of \<^verbatim>\<open>previous\<close>. In both cases the map holds four empty lists for every
  rundown id that occurs, and nothing else.
\<close>

theorem DiffPlaylist_empty:
  "changes (DiffPlaylist_with g [] previous) = map RundownDeleted (rundownIds previous) \<and>
   changes (DiffPlaylist_with g playlist []) = map RundownCreated (rundownIds playlist) \<and>
   js_get (segmentChanges (DiffPlaylist_with g [] previous)) rid =
     (if rid \<in> set (rundownIds previous) then Some no_segment_changes else None) \<and>
   js_get (segmentChanges (DiffPlaylist_with g playlist [])) rid =
     (if rid \<in> set (rundownIds playlist) then Some no_segment_changes else None)"
proof -
  have rc: "rundown_changes g [] = (\<lambda>r. [RundownCreated (rundownId r)])"
    by (simp add: rundown_changes_def find_rundown_def fun_eq_iff)
  have rs: "rundown_summary g [] = (\<lambda>r. no_segment_changes)"
    by (simp add: rundown_summary_def find_rundown_def fun_eq_iff)
  show ?thesis
    by (simp add: diff_simps deleted_rundowns_def comp_def rc rs
        segmentChanges_fold_current segmentChanges_fold_deleted fold_js_set_const_empty
        map_of_fold_js_set_const)
qed

text \<open>
  A rundown that is reported at the rundown level has no other record:
  if the log holds a \<open>RundownDeleted\<close> or \<open>RundownCreated\<close> record, then every
  record of the log with the same rundown id is that record. In particular no
  segment record is emitted for a rundown that is new or gone.
\<close>

lemma rundown_change_exclusive:
  assumes "c \<in> set (changes (DiffPlaylist_with g playlist previous))" and "is_rundown_change c"
    and "c' \<in> set (changes (DiffPlaylist_with g playlist previous))"
    and "rundownExternalId c' = rundownExternalId c"
  shows "c' = c"
  using assms(1)
proof (cases rule: in_changes_cases)
  case deleted
  from assms(3) show ?thesis
    by (cases rule: in_changes_cases) (use deleted assms(4) in auto)
next
  case created
  from assms(3) show ?thesis
    by (cases rule: in_changes_cases) (use created assms(4) in auto)
next
  case (segment r p)
  with assms(2) show ?thesis by (simp add: is_segment_change_def)
qed

theorem rundown_change_exclusive_witness:
  "RundownCreated ''R2'' \<in> set (changes (DiffPlaylist_with GetMovedSegments ex_playlist ex_previous)) \<and>
   is_rundown_change (RundownCreated ''R2'') \<and>
   rundownExternalId (RundownCreated ''R2'') = rundownExternalId (RundownCreated ''R2'') \<and>
   RundownCreated ''R2'' = RundownCreated ''R2''"
proof -
  have h: "RundownCreated ''R2'' \<in> set (changes (DiffPlaylist_with GetMovedSegments ex_playlist ex_previous))"
    and k: "is_rundown_change (RundownCreated ''R2'')"
    by (simp_all add: is_rundown_change_def)
  from rundown_change_exclusive [OF h k h refl] h k show ?thesis by simp
qed

section \<open>The entries of the map\<close>

lemma js_get_absent:
  "rid \<notin> set (rundownIds playlist) \<Longrightarrow>
     js_get (segmentChanges (DiffPlaylist_with g playlist previous)) rid =
       (if rid \<in> set (rundownIds previous) then Some no_segment_changes else None)"
  by (simp add: js_get_diff find_rundown_rev_None_iff [THEN iffD2])

lemma js_get_created:
  assumes "rid \<in> set (rundownIds playlist)" and "rid \<notin> set (rundownIds previous)"
  shows "js_get (segmentChanges (DiffPlaylist_with g playlist previous)) rid = Some no_segment_changes"
proof -
  from assms(1) obtain r where r: "find_rundown rid (rev playlist) = Some r"
    using find_rundown_Some_ex [of rid "rev playlist"] by (auto simp: rev_map [symmetric])
  then have "rundownId r = rid" by (auto dest: find_rundown_SomeD)
  with r assms(2) show ?thesis
    by (simp add: js_get_diff rundown_summary_def find_rundown_None_iff [THEN iffD2])
qed

text \<open>
  A rundown that is reported at the rundown level has the empty summary:
  if the log holds a \<open>RundownDeleted\<close> or \<open>RundownCreated\<close> record for a rundown,
  the map's entry for that rundown is four empty lists.
\<close>

lemma rundown_change_summary:
  assumes "c \<in> set (changes (DiffPlaylist_with g playlist previous))" and "is_rundown_change c"
  shows "js_get (segmentChanges (DiffPlaylist_with g playlist previous)) (rundownExternalId c) =
    Some no_segment_changes"
  using assms(1)
proof (cases rule: in_changes_cases)
  case deleted
  then show ?thesis by (simp add: js_get_absent)
next
  case created
  then show ?thesis by (simp add: js_get_created)
next
  case (segment r p)
  with assms(2) show ?thesis by (simp add: is_segment_change_def)
qed

theorem rundown_change_summary_witness:
  "RundownDeleted ''R0'' \<in> set (changes (DiffPlaylist_with GetMovedSegments ex_playlist ex_previous)) \<and>
   is_rundown_change (RundownDeleted ''R0'') \<and>
   js_get (segmentChanges (DiffPlaylist_with GetMovedSegments ex_playlist ex_previous)) ''R0'' =
     Some no_segment_changes"
proof -
  have h: "RundownDeleted ''R0'' \<in> set (changes (DiffPlaylist_with GetMovedSegments ex_playlist ex_previous))"
    and k: "is_rundown_change (RundownDeleted ''R0'')"
    by (simp_all add: is_rundown_change_def)
  from rundown_change_summary [OF h k] h k show ?thesis by simp
qed

text \<open>
  The resolver's result is stored verbatim: when the rundown ids of the playlist
  are distinct and a rundown id is found in both playlists, the map's entry for it
  is what the resolver returns for the previous and the current segment order of
  that rundown, in this argument order.
\<close>

lemma js_get_present:
  assumes "distinct (rundownIds playlist)"
    and "find_rundown rid playlist = Some r" and "find_rundown rid previous = Some p"
  shows "js_get (segmentChanges (DiffPlaylist_with g playlist previous)) rid =
    Some (g (segments p) (segments r))"
proof -
  from assms(1,2) have "find_rundown rid (rev playlist) = Some r"
    by (simp add: find_rundown_def find_key_rev)
  moreover from assms(2) have "rundownId r = rid" by (auto dest: find_rundown_SomeD)
  ultimately show ?thesis using assms(3) by (simp add: js_get_diff rundown_summary_def)
qed

text \<open>
  With distinct rundown ids in both playlists no \<^verbatim>\<open>set\<close> call overwrites an entry,
  and the map is, entry by entry, the deleted rundowns followed by the playlist.
\<close>

lemma segmentChanges_distinct:
  assumes "distinct (rundownIds playlist)" and "distinct (rundownIds previous)"
  shows "segmentChanges (DiffPlaylist_with g playlist previous) =
     map (\<lambda>rid. (rid, no_segment_changes)) (deleted_rundowns playlist previous) @
     map (\<lambda>r. (rundownId r, rundown_summary g previous r)) playlist"
proof -
  have "fold (\<lambda>rid. js_set rid no_segment_changes) (deleted_rundowns playlist previous) [] =
      map (\<lambda>rid. (rid, no_segment_changes)) (deleted_rundowns playlist previous)"
    using fold_js_set_fresh [of "\<lambda>rid. rid" "deleted_rundowns playlist previous" "[]"
        "\<lambda>rid. no_segment_changes"] distinct_deleted_rundowns [OF assms(2), of playlist]
    by simp
  moreover have "set (rundownIds playlist) \<inter>
      fst ` set (map (\<lambda>rid. (rid, no_segment_changes)) (deleted_rundowns playlist previous)) = {}"
    using deleted_rundowns_disjoint [of playlist previous] by (simp add: image_image Int_commute)
  ultimately show ?thesis
    using assms(1)
    by (simp add: DiffPlaylist_with_def segmentChanges_fold_current segmentChanges_fold_deleted
        init_diff_def fold_js_set_fresh)
qed

section \<open>The order of the log\<close>

lemma not_deleted_rundown_changes:
  "c \<in> set (rundown_changes g previous r) \<Longrightarrow> change_type c \<noteq> PlaylistChangeRundownDeleted"
  using RundownDeleted_notin_rundown_changes [of "rundownExternalId c" g previous r]
  by (auto simp: change_type_simps)

lemma deleted_prefix:
  "\<forall>c\<in>set (map RundownDeleted rids). change_type c = PlaylistChangeRundownDeleted"
  "\<forall>c\<in>set (concat (map (rundown_changes g previous) playlist)).
     change_type c \<noteq> PlaylistChangeRundownDeleted"
  by (auto dest: not_deleted_rundown_changes)

text \<open>
  Deleted rundowns come first. The \<open>RundownDeleted\<close> records are an
  initial segment of the log, in the order of \<^verbatim>\<open>previous\<close>: the longest prefix of the
  log that consists of \<open>RundownDeleted\<close> records holds every \<open>RundownDeleted\<close>
  record of the log, one per rundown of \<^verbatim>\<open>previous\<close> whose id the playlist lacks.
\<close>

lemma deleted_records_first:
  "takeWhile (\<lambda>c. change_type c = PlaylistChangeRundownDeleted)
     (changes (DiffPlaylist_with g playlist previous)) =
     map RundownDeleted (deleted_rundowns playlist previous) \<and>
   filter (\<lambda>c. change_type c = PlaylistChangeRundownDeleted)
     (changes (DiffPlaylist_with g playlist previous)) =
     map RundownDeleted (deleted_rundowns playlist previous)"
  using takeWhile_filter_prefix [OF deleted_prefix, of "deleted_rundowns playlist previous" g previous playlist]
  by (simp add: diff_simps)

text \<open>
  The rundown ids of the log, in log order and without adjacent repetitions, for
  distinct rundown ids in each playlist: the deleted rundowns, then the rundowns of
  the playlist that have a record.
\<close>

lemma log_rundown_ids:
  assumes "distinct (rundownIds playlist)" and "distinct (rundownIds previous)"
  shows "remdups_adj (map rundownExternalId (changes (DiffPlaylist_with g playlist previous))) =
     deleted_rundowns playlist previous @
     map rundownId (filter (\<lambda>r. rundown_changes g previous r \<noteq> []) playlist)"
proof -
  let ?rest = "map rundownExternalId (concat (map (rundown_changes g previous) playlist))"
  have rest: "remdups_adj ?rest = map rundownId (filter (\<lambda>r. rundown_changes g previous r \<noteq> []) playlist)"
    using assms(1) by (intro remdups_adj_grouped) (auto dest: rundownExternalId_rundown_changes)
  have "y \<notin> set (deleted_rundowns playlist previous)" if "y \<in> set ?rest" for y
    using that by (auto dest: rundownExternalId_rundown_changes)
  then have "remdups_adj (deleted_rundowns playlist previous @ ?rest) =
      remdups_adj (deleted_rundowns playlist previous) @ remdups_adj ?rest"
    by (rule remdups_adj_append_fresh)
  with rest distinct_deleted_rundowns [OF assms(2), of playlist] show ?thesis
    by (simp add: diff_simps comp_def remdups_adj_distinct)
qed

lemma rundown_id_in_log:
  assumes "distinct (rundownIds playlist)" and "r \<in> set playlist"
  shows "rundownId r \<in> rundownExternalId ` set (changes (DiffPlaylist_with g playlist previous)) \<longleftrightarrow>
    rundown_changes g previous r \<noteq> []"
proof
  assume "rundownId r \<in> rundownExternalId ` set (changes (DiffPlaylist_with g playlist previous))"
  then obtain c where c: "c \<in> set (changes (DiffPlaylist_with g playlist previous))"
    "rundownExternalId c = rundownId r" by auto
  with assms(2) obtain r' where r': "r' \<in> set playlist" "c \<in> set (rundown_changes g previous r')"
    by (auto simp: diff_simps)
  with c(2) have "rundownId r' = rundownId r" by (auto dest: rundownExternalId_rundown_changes)
  with assms r'(1) have "r' = r" by (auto simp: distinct_map dest: inj_onD)
  with r'(2) show "rundown_changes g previous r \<noteq> []" by auto
next
  assume "rundown_changes g previous r \<noteq> []"
  then obtain c where c: "c \<in> set (rundown_changes g previous r)" by (cases "rundown_changes g previous r") auto
  with assms(2) have "c \<in> set (changes (DiffPlaylist_with g playlist previous))" by (auto simp: diff_simps)
  with rundownExternalId_rundown_changes [OF c]
  show "rundownId r \<in> rundownExternalId ` set (changes (DiffPlaylist_with g playlist previous))"
    by (metis imageI)
qed

text \<open>
  \<^bold>\<open>C23.\<close> The log is grouped by rundown, in the iteration order of the map. With
  distinct rundown ids in each playlist, the records of one rundown are adjacent in
  the log, and the rundowns occur in the log in the order in which the map holds
  their keys: the sequence of rundown ids of the log, without adjacent repetitions,
  is the sequence of the keys of the map that have a record.
\<close>

theorem log_in_key_order:
  assumes "distinct (rundownIds playlist)" and "distinct (rundownIds previous)"
  shows "remdups_adj (map rundownExternalId (changes (DiffPlaylist_with g playlist previous))) =
     filter (\<lambda>rid. rid \<in> rundownExternalId ` set (changes (DiffPlaylist_with g playlist previous)))
       (js_keys (segmentChanges (DiffPlaylist_with g playlist previous)))"
proof -
  let ?in_log = "\<lambda>rid. rid \<in> rundownExternalId ` set (changes (DiffPlaylist_with g playlist previous))"
  have keys: "js_keys (segmentChanges (DiffPlaylist_with g playlist previous)) =
      deleted_rundowns playlist previous @ rundownIds playlist"
    by (simp add: segmentChanges_distinct [OF assms] comp_def)
  have "?in_log rid" if "rid \<in> set (deleted_rundowns playlist previous)" for rid
    using that by (force simp: diff_simps)
  then have del: "filter ?in_log (deleted_rundowns playlist previous) = deleted_rundowns playlist previous"
    by (simp add: filter_id_conv)
  have cur: "filter ?in_log (rundownIds playlist) =
      map rundownId (filter (\<lambda>r. rundown_changes g previous r \<noteq> []) playlist)"
    unfolding filter_map comp_def
    by (intro arg_cong [where f = "map rundownId"] filter_cong refl rundown_id_in_log assms(1))
  show ?thesis by (simp only: log_rundown_ids [OF assms] keys filter_append del cur)
qed

theorem log_in_key_order_witness:
  "distinct (rundownIds ex_playlist) \<and> distinct (rundownIds ex_previous) \<and>
   remdups_adj (map rundownExternalId (changes (DiffPlaylist_with GetMovedSegments ex_playlist ex_previous))) =
     [''R0'', ''R1'', ''R2''] \<and>
   filter (\<lambda>rid. rid \<in> rundownExternalId ` set (changes (DiffPlaylist_with GetMovedSegments ex_playlist ex_previous)))
     (js_keys (segmentChanges (DiffPlaylist_with GetMovedSegments ex_playlist ex_previous))) =
     [''R0'', ''R1'', ''R2'']"
  using log_in_key_order [OF ex_distinct, of GetMovedSegments] ex_distinct
  by (simp add: ex_eval ex_diff_def)

section \<open>The records of one rundown\<close>

lemma filter_changes_absent:
  assumes "distinct (rundownIds previous)" and "rid \<notin> set (rundownIds playlist)"
  shows "filter (\<lambda>c. rundownExternalId c = rid) (changes (DiffPlaylist_with g playlist previous)) =
     (if rid \<in> set (rundownIds previous) then [RundownDeleted rid] else [])"
proof -
  from assms(2) have "filter (\<lambda>r. rundownId r = rid) playlist = []"
    by (auto simp: filter_empty_conv)
  with assms show ?thesis
    by (simp add: diff_simps filter_concat_rundown_changes filter_deleted_rundowns)
qed

lemma filter_changes_present:
  assumes "distinct (rundownIds playlist)" and "distinct (rundownIds previous)"
    and "find_rundown rid playlist = Some r"
  shows "filter (\<lambda>c. rundownExternalId c = rid) (changes (DiffPlaylist_with g playlist previous)) =
     rundown_changes g previous r"
proof -
  from find_rundown_SomeD [OF assms(3)] have "rid \<in> set (rundownIds playlist)" by auto
  with assms show ?thesis
    by (simp add: diff_simps filter_concat_rundown_changes filter_deleted_rundowns
        filter_key_distinct flip: find_rundown_def)
qed

lemma segment_in_changes:
  assumes "distinct (rundownIds playlist)" and "distinct (rundownIds previous)"
    and "is_segment_change c"
  shows "c \<in> set (changes (DiffPlaylist_with g playlist previous)) \<longleftrightarrow>
    (\<exists>r p. find_rundown (rundownExternalId c) playlist = Some r \<and>
       find_rundown (rundownExternalId c) previous = Some p \<and>
       c \<in> set (segment_changes_of (rundownExternalId c) (g (segments p) (segments r))))"
proof (cases "rundownExternalId c" playlist rule: find_rundown_cases)
  case absent
  then have "filter (\<lambda>c'. rundownExternalId c' = rundownExternalId c)
      (changes (DiffPlaylist_with g playlist previous)) =
      (if rundownExternalId c \<in> set (rundownIds previous) then [RundownDeleted (rundownExternalId c)]
       else [])"
    using assms(1,2)
    by (simp add: diff_simps filter_concat_rundown_changes filter_deleted_rundowns
        filter_key_distinct find_rundown_def)
  with absent(1) segment_change_neq(2) [OF assms(3)] show ?thesis
    by (subst in_filter_key [where f = rundownExternalId]) auto
next
  case (present r)
  note flt = filter_changes_present [OF assms(1,2) present(1), of g]
  show ?thesis
  proof (cases "find_rundown (rundownExternalId c) previous")
    case None
    with flt present segment_change_neq(1) [OF assms(3)] show ?thesis
      by (subst in_filter_key [where f = rundownExternalId]) (simp add: rundown_changes_def)
  next
    case (Some p)
    with flt present show ?thesis
      by (subst in_filter_key [where f = rundownExternalId]) (simp add: rundown_changes_def)
  qed
qed

lemma moved_segment_changes_of:
  "filter (\<lambda>c. change_type c = PlaylistChangeSegmentMoved) (segment_changes_of rid sc) =
     map (SegmentMoved rid) (movedSegments sc)"
  by (simp add: segment_changes_of_def filter_map comp_def)

section \<open>One decision per rundown\<close>

text \<open>
  \<^bold>\<open>C2.\<close> Exactly one decision per rundown. When the rundown ids are distinct in
  each playlist, the records of the log that name a given rundown id are, in log
  order: nothing if neither playlist has the id; the single record
  \<open>RundownDeleted\<close> if only \<^verbatim>\<open>previous\<close> has it; the single record \<open>RundownCreated\<close>
  if only the playlist has it; and otherwise the resolver's moved segments, then its
  inserted segments, then its deleted segments, and no rundown-level record.
\<close>

theorem changes_of_rundown:
  assumes "distinct (rundownIds playlist)" and "distinct (rundownIds previous)"
  shows "filter (\<lambda>c. rundownExternalId c = rid) (changes (DiffPlaylist_with g playlist previous)) =
     rundown_decision g playlist previous rid"
proof (cases rid playlist rule: find_rundown_cases)
  case absent
  then show ?thesis
    using assms
    by (simp add: diff_simps rundown_decision_def filter_concat_rundown_changes
        filter_deleted_rundowns filter_key_distinct find_rundown_def)
next
  case (present r)
  then show ?thesis
    using assms
    by (simp add: diff_simps rundown_decision_def filter_concat_rundown_changes
        filter_deleted_rundowns filter_key_distinct flip: find_rundown_def)
qed

theorem changes_of_rundown_witness:
  "distinct (rundownIds ex_playlist) \<and> distinct (rundownIds ex_previous) \<and>
   filter (\<lambda>c. rundownExternalId c = ''R1'')
     (changes (DiffPlaylist_with GetMovedSegments ex_playlist ex_previous)) =
   rundown_decision GetMovedSegments ex_playlist ex_previous ''R1'' \<and>
   rundown_decision GetMovedSegments ex_playlist ex_previous ''R1'' =
     [SegmentMoved ''R1'' ''C'', SegmentCreated ''R1'' ''E'']"
  using changes_of_rundown [OF ex_distinct, of "''R1''" GetMovedSegments] ex_distinct
  by (simp add: rundown_decision_def rundown_changes_def segment_changes_of_def find_rundown_def
      ex_playlist_def ex_previous_def GetMovedSegments_example)

section \<open>The log and the map agree\<close>

lemma filter_segment_changes_of:
  "filter is_segment_change (segment_changes_of rid sc) = segment_changes_of rid sc"
  by (simp add: filter_id_conv is_segment_change_segment_changes_of)

lemma segment_changes_of_empty [simp]: "segment_changes_of rid no_segment_changes = []"
  by (simp add: segment_changes_of_def gw_defs)

text \<open>
  \<^bold>\<open>C18.\<close> The two parts of the result agree. With distinct rundown ids in each
  playlist, the segment records the log holds for a rundown id are the records that
  the map's entry for that id stands for (\<open>summary_log\<close>): its moved, then its
  inserted, then its deleted segments, and none where the map has no entry or four
  empty lists. A consumer may read either part.
\<close>

theorem log_matches_summary:
  assumes "distinct (rundownIds playlist)" and "distinct (rundownIds previous)"
  shows "filter is_segment_change
      (filter (\<lambda>c. rundownExternalId c = rid) (changes (DiffPlaylist_with g playlist previous))) =
     summary_log (DiffPlaylist_with g playlist previous) rid"
proof (cases rid playlist rule: find_rundown_cases)
  case absent
  with assms(2) show ?thesis
    by (simp add: filter_changes_absent js_get_absent summary_log_def is_segment_change_def
        is_rundown_change_def del: filter_filter)
next
  case r: (present r)
  show ?thesis
  proof (cases rid previous rule: find_rundown_cases)
    case absent
    with r assms show ?thesis
      by (simp add: filter_changes_present js_get_created summary_log_def rundown_changes_def
          is_segment_change_def is_rundown_change_def del: filter_filter)
  next
    case (present p)
    with r assms show ?thesis
      by (simp add: filter_changes_present js_get_present summary_log_def rundown_changes_def
          filter_segment_changes_of del: filter_filter)
  qed
qed

theorem log_matches_summary_witness:
  "distinct (rundownIds ex_playlist) \<and> distinct (rundownIds ex_previous) \<and>
   summary_log (DiffPlaylist_with GetMovedSegments ex_playlist ex_previous) ''R1'' =
     [SegmentMoved ''R1'' ''C'', SegmentCreated ''R1'' ''E'']"
  using log_matches_summary [OF ex_distinct, of "''R1''" GetMovedSegments] ex_distinct
  by (simp add: is_segment_change_def is_rundown_change_def)

section \<open>The segments the log mentions\<close>

lemma mentioned_segment_changes_of:
  "mentioned (segment_changes_of rid sc) rid =
     set (movedSegments sc) \<union> set (insertedSegments sc) \<union> set (deletedSegments sc)"
  by (auto simp: mentioned_def segment_changes_of_def map_filter_def)

lemma mentioned_filter:
  "mentioned (filter (\<lambda>c. rundownExternalId c = rid) log) rid = mentioned log rid"
  by (auto simp: mentioned_def map_filter_def)

lemma mentioned_present:
  assumes "distinct (rundownIds playlist)" and "distinct (rundownIds previous)"
    and "find_rundown rid playlist = Some r" and "find_rundown rid previous = Some p"
  shows "mentioned (changes (DiffPlaylist_with g playlist previous)) rid =
     set (movedSegments (g (segments p) (segments r))) \<union>
     set (insertedSegments (g (segments p) (segments r))) \<union>
     set (deletedSegments (g (segments p) (segments r)))"
proof -
  from assms(3) have "rundownId r = rid" by (auto dest: find_rundown_SomeD)
  with filter_changes_present [OF assms(1-3), of g] assms(4)
  have "filter (\<lambda>c. rundownExternalId c = rid) (changes (DiffPlaylist_with g playlist previous)) =
      segment_changes_of rid (g (segments p) (segments r))"
    by (simp add: rundown_changes_def)
  from arg_cong [OF this, of "\<lambda>l. mentioned l rid"] show ?thesis
    by (simp add: mentioned_filter mentioned_segment_changes_of)
qed

section \<open>The size of the log\<close>

text \<open>
  A rundown of the playlist contributes at most one record per segment of its own
  and one per segment of the rundown it is compared with (\<open>matched_size\<close>), or the
  one record of its creation. With distinct rundown ids in the playlist, no rundown
  of \<^verbatim>\<open>previous\<close> is compared with twice.
\<close>

lemma length_rundown_changes:
  "length (rundown_changes GetMovedSegments previous r) \<le>
     Suc (length (segments r)) + matched_size previous r"
proof (cases "find_rundown (rundownId r) previous")
  case None
  then show ?thesis by (simp add: rundown_changes_def matched_size_def)
next
  case (Some p)
  with length_GetMovedSegments [of "segments p" "segments r"] show ?thesis
    by (simp add: rundown_changes_def matched_size_def segment_changes_of_def)
qed

lemma sum_matched_size:
  assumes "distinct (rundownIds playlist)"
  shows "sum_list (map (matched_size previous) playlist) \<le>
     sum_list (map (\<lambda>p. length (segments p)) previous)"
proof (induction previous)
  case Nil
  show ?case by (simp add: matched_size_def find_rundown_def)
next
  case (Cons q qs)
  have eq: "matched_size (q # qs) = (\<lambda>r. if rundownId r = rundownId q then length (segments q)
      else matched_size qs r)"
    by (auto simp: matched_size_def find_rundown_def fun_eq_iff)
  have "sum_list (map (matched_size (q # qs)) playlist) \<le>
      length (segments q) + sum_list (map (matched_size qs) playlist)"
    unfolding eq by (rule sum_list_if_key [OF assms])
  with Cons show ?case by simp
qed

section \<open>The fields the differ reads\<close>

lemma find_rundown_core:
  "find_rundown rid (map core_rundown playlist) = map_option core_rundown (find_rundown rid playlist)"
  unfolding find_rundown_def by (rule find_map_key) simp

lemma deleted_step_core:
  "deleted_step (map core_rundown playlist) (core_rundown r) = deleted_step playlist r"
  by (rule ext) (simp add: deleted_step_def find_rundown_core split: option.splits)

lemma current_step_core:
  "current_step g (map core_rundown previous) (core_rundown r) = current_step g previous r"
  by (rule ext) (simp add: current_step_def find_rundown_core split: option.splits)

text \<open>
  \<^bold>\<open>C26.\<close> Frame. The differ reads the rundown id and the segments of a rundown
  and nothing else: forgetting every other field of the rundowns of both playlists
  leaves the result unchanged, for every resolver.
\<close>

theorem DiffPlaylist_frame:
  "DiffPlaylist_with g (map core_rundown playlist) (map core_rundown previous) =
     DiffPlaylist_with g playlist previous"
  by (simp add: DiffPlaylist_with_def fold_map comp_def deleted_step_core current_step_core)

section \<open>One record per target\<close>

text \<open>
  The targets of the records of the specified log, for well-formed playlists and the
  resolver of \<open>Move_Set_Resolver\<close>, are pairwise different.
\<close>

lemma change_target_segment_changes_of:
  "map change_target (segment_changes_of rid sc) =
     map (\<lambda>s. (rid, Some s)) (movedSegments sc @ insertedSegments sc @ deletedSegments sc)"
  by (simp add: segment_changes_of_def change_target_def comp_def)

lemma distinct_rundown_targets:
  assumes "wf_playlist previous" and "distinct (segments r)"
  shows "distinct (map change_target (rundown_changes GetMovedSegments previous r))"
proof (cases "rundownId r" previous rule: find_rundown_cases)
  case absent
  then show ?thesis by (simp add: rundown_changes_def)
next
  case (present p)
  with assms have "distinct (segments p)" by (auto dest: wf_playlistD find_rundown_SomeD)
  from GetMovedSegments_distinct [OF this assms(2)] present show ?thesis
    by (simp add: rundown_changes_def change_target_segment_changes_of distinct_map inj_on_def
        del: distinct_append map_append)
qed

lemma fst_rundown_targets:
  "c \<in> set (map change_target (rundown_changes g previous r)) \<Longrightarrow> fst c = rundownId r"
  by (auto simp: change_target_def dest: rundownExternalId_rundown_changes)

lemma change_target_changes_spec:
  "map change_target (changes_spec g playlist previous) =
     map (\<lambda>rid. (rid, None)) (deleted_rundowns playlist previous) @
     concat (map (\<lambda>r. map change_target (rundown_changes g previous r)) playlist)"
  by (simp add: changes_spec_def map_concat comp_def change_target_def)

lemma distinct_targets_spec:
  assumes "wf_playlist playlist" and "wf_playlist previous"
  shows "distinct (map change_target (changes_spec GetMovedSegments playlist previous))"
proof -
  let ?rc = "\<lambda>r. map change_target (rundown_changes GetMovedSegments previous r)"
  let ?del = "map (\<lambda>rid. (rid, None :: SegmentId option)) (deleted_rundowns playlist previous)"
  have "distinct (concat (map ?rc playlist))"
  proof (rule distinct_concat_map_key [where k = rundownId and key = fst])
    show "distinct (rundownIds playlist)" using assms(1) by (rule wf_playlistD)
    show "distinct (?rc r)" if "r \<in> set playlist" for r
      using assms that by (simp add: distinct_rundown_targets wf_playlistD)
    show "fst c = rundownId r" if "c \<in> set (?rc r)" for r c
      using that by (rule fst_rundown_targets)
  qed
  moreover have "distinct ?del"
    using distinct_deleted_rundowns [OF wf_playlistD(1) [OF assms(2)], of playlist]
    by (simp add: distinct_map inj_on_def)
  moreover have "fst ` set (concat (map ?rc playlist)) \<subseteq> set (rundownIds playlist)"
    using fst_rundown_targets by fastforce
  then have "fst ` set ?del \<inter> fst ` set (concat (map ?rc playlist)) = {}"
    using deleted_rundowns_disjoint [of playlist previous] by (auto simp: image_image)
  then have "set ?del \<inter> set (concat (map ?rc playlist)) = {}" by (rule disjoint_fst)
  ultimately show ?thesis by (simp only: change_target_changes_spec distinct_append)
qed

end
