(* ===== verification/Diff_Locality.thy ===== *)
theory Diff_Locality
  imports Diff_Log
begin

text \<open>
  What the result of \<^verbatim>\<open>DiffPlaylist\<close> depends on.

  \<^item> \<open>resolver_calls\<close> lists the argument pairs of the calls of
    \<^verbatim>\<open>GetMovedSegments\<close> at lines 126 to 129 of \<^verbatim>\<open>DiffPlaylist.ts\<close>, in the order of
    the calls: one call per rundown of the playlist whose id \<^verbatim>\<open>previous\<close> has, with
    the segments of the first such rundown of \<^verbatim>\<open>previous\<close> and the segments of the
    rundown of the playlist, in this order.
  \<^item> \<open>rundowns_with\<close> is the part of a playlist that has a given rundown id.

  The theory proves that the result depends on the resolver through these calls and
  nothing else, and that the rundowns are diffed independently of one another: what
  the log and the map say about a rundown id is what the differ returns for the
  rundowns with that id alone.
\<close>

section \<open>Definitions\<close>

definition resolver_calls ::
  "'a ResolvedPlaylist \<Rightarrow> 'b ResolvedPlaylist \<Rightarrow> (SegmentId list \<times> SegmentId list) list" where
  "resolver_calls playlist previous =
     concat (map
       (\<lambda>rundown. case find_rundown (rundownId rundown) previous of
          None \<Rightarrow> []
        | Some prevRundown \<Rightarrow> [(segments prevRundown, segments rundown)])
       playlist)"

definition rundowns_with :: "RundownId \<Rightarrow> 'a ResolvedPlaylist \<Rightarrow> 'a ResolvedPlaylist" where
  "rundowns_with rid playlist = filter (\<lambda>r. rundownId r = rid) playlist"

definition ex_resolver :: resolver where
  "ex_resolver p n =
     (if (p, n) = ([''A'', ''B'', ''C'', ''D''], [''A'', ''C'', ''B'', ''D'', ''E''])
      then GetMovedSegments p n else no_segment_changes)"

section \<open>The calls of the resolver\<close>

lemma resolver_calls_iff:
  "(p, n) \<in> set (resolver_calls playlist previous) \<longleftrightarrow>
     (\<exists>r\<in>set playlist. \<exists>q. find_rundown (rundownId r) previous = Some q \<and>
        p = segments q \<and> n = segments r)"
  by (auto simp: resolver_calls_def split: option.splits) (metis+)

lemma current_step_cong:
  assumes "\<And>q. find_rundown (rundownId r) previous = Some q \<Longrightarrow>
    g (segments q) (segments r) = g' (segments q) (segments r)"
  shows "current_step g previous r = current_step g' previous r"
  using assms by (intro ext) (simp add: current_step_def split: option.splits)

lemma DiffPlaylist_with_cong:
  assumes "\<And>p n. (p, n) \<in> set (resolver_calls playlist previous) \<Longrightarrow> g p n = g' p n"
  shows "DiffPlaylist_with g playlist previous = DiffPlaylist_with g' playlist previous"
proof -
  have "current_step g previous r = current_step g' previous r" if "r \<in> set playlist" for r
    using that by (intro current_step_cong assms) (auto simp: resolver_calls_iff)
  then show ?thesis unfolding DiffPlaylist_with_def by (intro fold_cong) simp_all
qed

lemma resolver_call_stored:
  assumes "distinct (rundownIds playlist)" and "r \<in> set playlist"
    and "find_rundown (rundownId r) previous = Some q"
  shows "js_get (segmentChanges (DiffPlaylist_with g playlist previous)) (rundownId r) =
    Some (g (segments q) (segments r))"
proof -
  from assms(1,2) have "find_rundown (rundownId r) playlist = Some r"
    by (simp add: find_rundown_def find_key_distinct)
  from js_get_present [OF assms(1) this assms(3)] show ?thesis .
qed

text \<open>
  \<^bold>\<open>C13.\<close> The result depends on the resolver through its calls and on nothing else of
  it. With distinct rundown ids in the playlist, the differ returns the same value
  with two resolvers if and only if the two agree on every pair of arguments in
  \<open>resolver_calls\<close>: the segments of the matched rundown of \<^verbatim>\<open>previous\<close> first and
  the segments of the playlist's rundown second. A resolver is never called for a
  rundown that only one playlist has, and every result of a call shows in the value
  returned.
\<close>

theorem resolver_calls_determine:
  assumes "distinct (rundownIds playlist)"
  shows "DiffPlaylist_with g playlist previous = DiffPlaylist_with g' playlist previous \<longleftrightarrow>
    (\<forall>(p, n) \<in> set (resolver_calls playlist previous). g p n = g' p n)"
proof
  assume "\<forall>(p, n) \<in> set (resolver_calls playlist previous). g p n = g' p n"
  then show "DiffPlaylist_with g playlist previous = DiffPlaylist_with g' playlist previous"
    by (intro DiffPlaylist_with_cong) auto
next
  assume eq: "DiffPlaylist_with g playlist previous = DiffPlaylist_with g' playlist previous"
  have "g p n = g' p n" if "(p, n) \<in> set (resolver_calls playlist previous)" for p n
  proof -
    from that obtain r q where r: "r \<in> set playlist"
      and q: "find_rundown (rundownId r) previous = Some q" and pn: "p = segments q" "n = segments r"
      by (auto simp: resolver_calls_iff)
    from resolver_call_stored [OF assms r q, of g] resolver_call_stored [OF assms r q, of g'] eq pn
    show ?thesis by simp
  qed
  then show "\<forall>(p, n) \<in> set (resolver_calls playlist previous). g p n = g' p n" by auto
qed

lemma ex_resolver_calls:
  "resolver_calls ex_playlist ex_previous =
     [([''A'', ''B'', ''C'', ''D''], [''A'', ''C'', ''B'', ''D'', ''E''])]"
  by (simp add: resolver_calls_def ex_playlist_def ex_previous_def find_rundown_def)

theorem resolver_calls_determine_witness:
  "distinct (rundownIds ex_playlist) \<and>
   resolver_calls ex_playlist ex_previous =
     [([''A'', ''B'', ''C'', ''D''], [''A'', ''C'', ''B'', ''D'', ''E''])] \<and>
   ex_resolver [''A'', ''B'', ''C'', ''D''] [''A'', ''C'', ''B'', ''D'', ''E''] =
     GetMovedSegments [''A'', ''B'', ''C'', ''D''] [''A'', ''C'', ''B'', ''D'', ''E''] \<and>
   DiffPlaylist_with ex_resolver ex_playlist ex_previous =
     DiffPlaylist_with GetMovedSegments ex_playlist ex_previous \<and>
   ex_resolver [] [''X''] \<noteq> GetMovedSegments [] [''X'']"
  using resolver_calls_determine [OF ex_distinct(1), of ex_resolver ex_previous GetMovedSegments]
    ex_distinct(1)
  by (simp add: ex_resolver_calls) (simp add: ex_resolver_def GetMovedSegments_def no_segment_changes_def)

section \<open>Rundowns are diffed independently\<close>

lemma rundownIds_rundowns_with:
  "rundownIds (rundowns_with rid playlist) = filter (\<lambda>k. k = rid) (rundownIds playlist)"
  by (simp add: rundowns_with_def filter_map comp_def)

lemma find_rundown_rundowns_with [simp]:
  "find_rundown rid (rundowns_with rid playlist) = find_rundown rid playlist"
  unfolding find_rundown_def rundowns_with_def by (induction playlist) simp_all

lemma rundown_changes_rundowns_with:
  "rundownId r = rid \<Longrightarrow>
     rundown_changes g (rundowns_with rid previous) r = rundown_changes g previous r"
  by (simp add: rundown_changes_def)

lemma rundown_summary_rundowns_with:
  "rundownId r = rid \<Longrightarrow>
     rundown_summary g (rundowns_with rid previous) r = rundown_summary g previous r"
  by (simp add: rundown_summary_def)

lemma deleted_rundowns_with:
  "deleted_rundowns (rundowns_with rid playlist) (rundowns_with rid previous) =
     filter (\<lambda>k. k = rid) (deleted_rundowns playlist previous)"
  by (auto simp: deleted_rundowns_def rundownIds_rundowns_with intro: filter_cong)

lemma changes_rundowns_with:
  "changes (DiffPlaylist_with g (rundowns_with rid playlist) (rundowns_with rid previous)) =
     filter (\<lambda>c. rundownExternalId c = rid) (changes (DiffPlaylist_with g playlist previous))"
proof -
  have "map (rundown_changes g (rundowns_with rid previous)) (rundowns_with rid playlist) =
      map (rundown_changes g previous) (rundowns_with rid playlist)"
    by (rule map_cong) (simp_all add: rundown_changes_rundowns_with rundowns_with_def [of rid playlist])
  then have "concat (map (rundown_changes g (rundowns_with rid previous)) (rundowns_with rid playlist)) =
      concat (map (rundown_changes g previous) (rundowns_with rid playlist))"
    by (rule arg_cong)
  then show ?thesis
    by (simp add: diff_simps deleted_rundowns_with filter_concat_rundown_changes filter_map comp_def
        flip: rundowns_with_def)
qed

lemma js_get_rundowns_with:
  "js_get (segmentChanges (DiffPlaylist_with g (rundowns_with rid playlist) (rundowns_with rid previous))) rid =
     js_get (segmentChanges (DiffPlaylist_with g playlist previous)) rid"
proof -
  have "find_rundown rid (rev (rundowns_with rid playlist)) = find_rundown rid (rev playlist)"
    using find_rundown_rundowns_with [of rid "rev playlist"] by (simp add: rundowns_with_def rev_filter)
  then show ?thesis
    by (auto simp: js_get_diff deleted_rundowns_with rundown_summary_rundowns_with
        dest: find_rundown_SomeD split: option.splits)
qed

text \<open>
  \<^bold>\<open>C12.\<close> Rundowns are diffed independently. For every resolver and every two
  playlists, with or without repeated rundown ids, the records of the log that name
  a rundown id, in log order, and the entry of the map for that id are what the
  differ returns for the rundowns with that id alone: no rundown with another id has
  any influence on them.
\<close>

theorem DiffPlaylist_local:
  "filter (\<lambda>c. rundownExternalId c = rid) (changes (DiffPlaylist_with g playlist previous)) =
     changes (DiffPlaylist_with g (rundowns_with rid playlist) (rundowns_with rid previous)) \<and>
   js_get (segmentChanges (DiffPlaylist_with g playlist previous)) rid =
     js_get (segmentChanges (DiffPlaylist_with g (rundowns_with rid playlist) (rundowns_with rid previous))) rid"
  by (simp add: changes_rundowns_with js_get_rundowns_with)

end
