(* ===== verification/Diff_Run.thy ===== *)
theory Diff_Run
  imports Diff_Playlist
begin

text \<open>
  The run of \<^verbatim>\<open>DiffPlaylist\<close> as a transition system, one iteration of a loop per
  step.

  \<^item> A configuration (\<open>config\<close>) is the part of \<^verbatim>\<open>previous\<close> the first loop has not
    visited yet, the part of \<^verbatim>\<open>playlist\<close> the second loop has not visited yet, and the
    two locals \<^verbatim>\<open>changes\<close> and \<^verbatim>\<open>segmentChanges\<close>.
  \<^item> \<open>diff_step\<close> is the step relation: the first loop runs while it has rundowns
    left, then the second loop runs. The relation is executable as it stands. Its
    steps are the step functions of \<open>Diff_Playlist\<close>, so what this theory adds is
    the order of the iterations, not the content of an iteration.
  \<^item> \<open>initial\<close> is the configuration at line 89 of \<^verbatim>\<open>DiffPlaylist.ts\<close>, \<open>final\<close>
    holds of the configuration at the \<^verbatim>\<open>return\<close>.
  \<^item> \<open>done_previous\<close> and \<open>done_playlist\<close> are the rundowns a configuration has
    visited: the parts of the two arrays before the parts that are left.
  \<^item> \<open>so_far\<close> is the value the locals have after the iterations over these
    rundowns, started from the empty log and the empty map.

  The theory shows that every configuration of the run from \<open>initial\<close> satisfies
  \<open>diff_inv\<close> and holds a prefix of the final log, that from every such
  configuration the run finishes, in as many steps as rundowns are left
  (\<open>remaining\<close>), in the result of \<open>DiffPlaylist_with\<close>, and that the reachable
  configurations are exactly those whose loops are in order and whose locals are the
  result of the iterations done so far.
\<close>

section \<open>Configurations and steps\<close>

type_synonym ('a, 'b) config =
  "'b ResolvedPlaylistRundown_scheme list \<times> 'a ResolvedPlaylistRundown_scheme list \<times> PlaylistDiff"

definition initial :: "'a ResolvedPlaylist \<Rightarrow> 'b ResolvedPlaylist \<Rightarrow> ('a, 'b) config" where
  "initial playlist previous = (previous, playlist, init_diff)"

fun final :: "('a, 'b) config \<Rightarrow> bool" where
  "final (ps, cs, st) \<longleftrightarrow> ps = [] \<and> cs = []"

fun locals :: "('a, 'b) config \<Rightarrow> PlaylistDiff" where
  "locals (ps, cs, st) = st"

fun remaining :: "('a, 'b) config \<Rightarrow> nat" where
  "remaining (ps, cs, st) = length ps + length cs"

inductive diff_step ::
  "resolver \<Rightarrow> 'a ResolvedPlaylist \<Rightarrow> 'b ResolvedPlaylist \<Rightarrow> ('a, 'b) config \<Rightarrow> ('a, 'b) config \<Rightarrow> bool"
  for g playlist previous where
    scan_previous:
      "diff_step g playlist previous (r # ps, cs, st) (ps, cs, deleted_step playlist r st)"
  | scan_playlist:
      "diff_step g playlist previous ([], r # cs, st) ([], cs, current_step g previous r st)"

definition reachable ::
  "resolver \<Rightarrow> 'a ResolvedPlaylist \<Rightarrow> 'b ResolvedPlaylist \<Rightarrow> ('a, 'b) config \<Rightarrow> bool" where
  "reachable g playlist previous c \<longleftrightarrow>
     (diff_step g playlist previous)\<^sup>*\<^sup>* (initial playlist previous) c"

fun finish ::
  "resolver \<Rightarrow> 'a ResolvedPlaylist \<Rightarrow> 'b ResolvedPlaylist \<Rightarrow> ('a, 'b) config \<Rightarrow> PlaylistDiff" where
  "finish g playlist previous (ps, cs, st) =
     fold (current_step g previous) cs (fold (deleted_step playlist) ps st)"

fun in_order :: "'a ResolvedPlaylist \<Rightarrow> 'b ResolvedPlaylist \<Rightarrow> ('a, 'b) config \<Rightarrow> bool" where
  "in_order playlist previous (ps, cs, st) \<longleftrightarrow>
     suffix ps previous \<and> suffix cs playlist \<and> (ps = [] \<or> cs = playlist)"

fun done_previous :: "'b ResolvedPlaylist \<Rightarrow> ('a, 'b) config \<Rightarrow> 'b ResolvedPlaylist" where
  "done_previous previous (ps, cs, st) = take (length previous - length ps) previous"

fun done_playlist :: "'a ResolvedPlaylist \<Rightarrow> ('a, 'b) config \<Rightarrow> 'a ResolvedPlaylist" where
  "done_playlist playlist (ps, cs, st) = take (length playlist - length cs) playlist"

definition so_far ::
  "resolver \<Rightarrow> 'a ResolvedPlaylist \<Rightarrow> 'b ResolvedPlaylist \<Rightarrow> ('a, 'b) config \<Rightarrow> PlaylistDiff" where
  "so_far g playlist previous c =
     fold (current_step g previous) (done_playlist playlist c)
       (fold (deleted_step playlist) (done_previous previous c) init_diff)"

definition ex_config :: "(unit, unit) config" where
  "ex_config =
     ([], [\<lparr>rundownId = ''R2'', segments = [''P'', ''Q'', ''R'']\<rparr>],
      \<lparr>changes = [RundownDeleted ''R0'', SegmentMoved ''R1'' ''C'', SegmentCreated ''R1'' ''E''],
       segmentChanges =
         [(''R0'', no_segment_changes),
          (''R1'', \<lparr>movedSegments = [''C''], notMovedSegments = [''A'', ''B'', ''D''],
                    insertedSegments = [''E''], deletedSegments = []\<rparr>)]\<rparr>)"

code_pred diff_step .

inductive_cases diff_stepE: "diff_step g playlist previous c c'"

inductive_simps diff_step_Cons [simp]: "diff_step g playlist previous (r # ps, cs, st) c'"

inductive_simps diff_step_Nil_Cons [simp]: "diff_step g playlist previous ([], r # cs, st) c'"

inductive_simps diff_step_Nil [simp]: "diff_step g playlist previous ([], [], st) c'"

section \<open>The steps that are left\<close>

lemma remaining_step:
  "diff_step g playlist previous c c' \<Longrightarrow> remaining c = Suc (remaining c')"
  by (induction rule: diff_step.induct) simp_all

section \<open>The run\<close>

lemma run_previous_part:
  "(diff_step g playlist previous ^^ length xs) (xs @ ps, cs, st)
     (ps, cs, fold (deleted_step playlist) xs st)"
proof (induction xs arbitrary: st)
  case Nil
  show ?case by simp
next
  case (Cons r xs)
  from Cons [of "deleted_step playlist r st"] show ?case
    by (simp del: relpowp.simps add: relpowp_Suc_I2)
qed

lemma run_playlist_part:
  "(diff_step g playlist previous ^^ length ys) ([], ys @ cs, st)
     ([], cs, fold (current_step g previous) ys st)"
proof (induction ys arbitrary: st)
  case Nil
  show ?case by simp
next
  case (Cons r ys)
  from Cons [of "current_step g previous r st"] show ?case
    by (simp del: relpowp.simps add: relpowp_Suc_I2)
qed

lemma run_previous:
  "(diff_step g playlist previous ^^ length ps) (ps, cs, st) ([], cs, fold (deleted_step playlist) ps st)"
  using run_previous_part [where ps = "[]"] by simp

lemma run_playlist:
  "(diff_step g playlist previous ^^ length cs) ([], cs, st) ([], [], fold (current_step g previous) cs st)"
  using run_playlist_part [where cs = "[]"] by simp

lemma run_all:
  "(diff_step g playlist previous ^^ (length previous + length playlist))
     (initial playlist previous) ([], [], DiffPlaylist_with g playlist previous)"
  unfolding initial_def DiffPlaylist_with_def
  using run_previous run_playlist by (rule relpowp_trans)

lemma run_from:
  "(diff_step g playlist previous ^^ remaining c) c ([], [], finish g playlist previous c)"
proof (cases c)
  case (fields ps cs st)
  from run_previous run_playlist
  have "(diff_step g playlist previous ^^ (length ps + length cs)) (ps, cs, st)
      ([], [], fold (current_step g previous) cs (fold (deleted_step playlist) ps st))"
    by (rule relpowp_trans)
  with fields show ?thesis by simp
qed

lemma finish_step:
  "diff_step g playlist previous c c' \<Longrightarrow> finish g playlist previous c' = finish g playlist previous c"
  by (induction rule: diff_step.induct) simp_all

lemma finish_initial: "finish g playlist previous (initial playlist previous) = DiffPlaylist_with g playlist previous"
  by (simp add: initial_def DiffPlaylist_with_def)

lemma finish_final: "final c \<Longrightarrow> finish g playlist previous c = locals c"
  by (cases c) simp

lemma finish_reachable:
  "reachable g playlist previous c \<Longrightarrow> finish g playlist previous c = DiffPlaylist_with g playlist previous"
  unfolding reachable_def
  by (induction rule: rtranclp_induct) (simp_all add: finish_initial finish_step)

lemma prefix_finish: "prefix (changes (locals c)) (changes (finish g playlist previous c))"
  by (cases c) (simp add: changes_fold_current changes_fold_deleted)

lemma in_order_step:
  "diff_step g playlist previous c c' \<Longrightarrow> in_order playlist previous c \<Longrightarrow> in_order playlist previous c'"
  by (induction rule: diff_step.induct) (auto dest: suffix_ConsD)

lemma diff_inv_step:
  "diff_step g playlist previous c c' \<Longrightarrow> diff_inv (locals c) \<Longrightarrow> diff_inv (locals c')"
  by (induction rule: diff_step.induct) (simp_all add: diff_inv_deleted_step diff_inv_current_step)

lemma reachable_initial: "reachable g playlist previous (initial playlist previous)"
  by (simp add: reachable_def)

lemma reachable_step:
  "reachable g playlist previous c \<Longrightarrow> diff_step g playlist previous c c' \<Longrightarrow> reachable g playlist previous c'"
  by (simp add: reachable_def)

lemma reachable_induct [consumes 1, case_names initial step]:
  assumes "reachable g playlist previous c"
    and "P (initial playlist previous)"
    and "\<And>c c'. reachable g playlist previous c \<Longrightarrow> P c \<Longrightarrow> diff_step g playlist previous c c' \<Longrightarrow> P c'"
  shows "P c"
  using assms(1) unfolding reachable_def
  by (induction rule: rtranclp_induct) (auto intro: assms(2,3) simp: reachable_def)

lemma reachable_in_order: "reachable g playlist previous c \<Longrightarrow> in_order playlist previous c"
  by (induction rule: reachable_induct) (auto simp: initial_def intro: in_order_step)

section \<open>The locals of a reachable configuration\<close>

lemma so_far_step:
  assumes "diff_step g playlist previous c c'" and "in_order playlist previous c"
    and "locals c = so_far g playlist previous c"
  shows "locals c' = so_far g playlist previous c'"
  using assms
  by (induction rule: diff_step.induct) (auto simp: so_far_def take_suffix_Cons)

lemma reachable_locals:
  "reachable g playlist previous c \<Longrightarrow> locals c = so_far g playlist previous c"
proof (induction rule: reachable_induct)
  case initial
  show ?case by (simp add: initial_def so_far_def)
next
  case (step c c')
  with reachable_in_order [OF step(1)] show ?case by (blast intro: so_far_step)
qed

lemma changes_so_far:
  "changes (so_far g playlist previous c) =
     map RundownDeleted (deleted_rundowns playlist (done_previous previous c)) @
     concat (map (rundown_changes g previous) (done_playlist playlist c))"
  by (simp add: so_far_def changes_fold_current changes_fold_deleted init_diff_def)

lemma done_playlist_take: "\<exists>n. done_playlist playlist c = take n playlist"
  by (cases c) auto

lemma so_far_reachable:
  assumes "in_order playlist previous c"
  shows "reachable g playlist previous (fst c, fst (snd c), so_far g playlist previous c)"
proof -
  obtain ps cs st where c: "c = (ps, cs, st)" by (cases c)
  let ?xs = "take (length previous - length ps) previous"
  let ?ys = "take (length playlist - length cs) playlist"
  from assms c have p: "?xs @ ps = previous" and q: "?ys @ cs = playlist"
    and o: "ps = [] \<or> cs = playlist" by (auto simp: take_suffix)
  have 1: "(diff_step g playlist previous)\<^sup>*\<^sup>* (initial playlist previous)
      (ps, playlist, fold (deleted_step playlist) ?xs init_diff)"
    using run_previous_part [where g = g and playlist = playlist and previous = previous and xs = ?xs
        and ps = ps and cs = playlist and st = init_diff]
    by (simp only: p initial_def) (rule relpowp_imp_rtranclp)
  show ?thesis
  proof (cases "ps = []")
    case True
    from run_playlist_part [where g = g and playlist = playlist and previous = previous
        and ys = ?ys and cs = cs and st = "fold (deleted_step playlist) ?xs init_diff"]
    have "(diff_step g playlist previous)\<^sup>*\<^sup>* ([], playlist, fold (deleted_step playlist) ?xs init_diff)
        ([], cs, so_far g playlist previous c)"
      by (simp only: q) (simp add: so_far_def c relpowp_imp_rtranclp)
    with 1 True show ?thesis by (simp add: reachable_def c)
  next
    case False
    with o have "cs = playlist" by simp
    with 1 show ?thesis by (simp add: reachable_def c so_far_def)
  qed
qed

lemma reachable_result: "reachable g playlist previous ([], [], DiffPlaylist_with g playlist previous)"
  unfolding reachable_def using run_all by (rule relpowp_imp_rtranclp)

section \<open>An intermediate configuration of the example\<close>

lemma ex_config_reachable: "reachable GetMovedSegments ex_playlist ex_previous ex_config"
proof -
  have "(diff_step GetMovedSegments ex_playlist ex_previous ^^ 3)
      (initial ex_playlist ex_previous) ex_config"
    by (simp add: numeral_3_eq_3 relpowp_Suc_left relcompp_apply initial_def ex_config_def
        ex_playlist_def ex_previous_def gw_defs GetMovedSegments_def common_segments_def
        push_def push_each_eq)
  then show ?thesis unfolding reachable_def by (rule relpowp_imp_rtranclp)
qed

section \<open>Properties of the run\<close>

text \<open>
  \<^bold>\<open>C29.\<close> Every run finishes: from any configuration a run can reach, the step
  relation arrives, in exactly as many steps as rundowns are left to visit, at the
  configuration in which both loops are done and the locals are the value
  \<open>DiffPlaylist_with\<close> returns.
\<close>

theorem run_completes:
  assumes "reachable g playlist previous c"
  shows "(diff_step g playlist previous ^^ remaining c) c ([], [], DiffPlaylist_with g playlist previous)"
  using run_from [where c = c and g = g and playlist = playlist and previous = previous]
    finish_reachable [OF assms] by simp

theorem run_completes_witness:
  "reachable GetMovedSegments ex_playlist ex_previous ex_config \<and>
   (diff_step GetMovedSegments ex_playlist ex_previous ^^ remaining ex_config) ex_config
     ([], [], ex_diff)"
  using run_completes [OF ex_config_reachable] ex_config_reachable
  by (simp only: ex_eval simp_thms)

text \<open>
  \<^bold>\<open>C30.\<close> Every configuration of a run is well formed: the first loop is done
  before the second starts and each loop has a suffix of its array left, the locals
  satisfy \<open>diff_inv\<close>, and the log written so far is a prefix of the log that is
  returned (records are appended and never taken back).
\<close>

theorem reachable_inv:
  assumes "reachable g playlist previous c"
  shows "in_order playlist previous c \<and> diff_inv (locals c) \<and>
    prefix (changes (locals c)) (changes (DiffPlaylist_with g playlist previous))"
proof -
  from assms have "in_order playlist previous c" by (rule reachable_in_order)
  moreover from assms have "diff_inv (locals c)"
    by (induction rule: reachable_induct) (auto simp: initial_def diff_inv_init intro: diff_inv_step)
  moreover from prefix_finish [of c g playlist previous] finish_reachable [OF assms]
  have "prefix (changes (locals c)) (changes (DiffPlaylist_with g playlist previous))" by simp
  ultimately show ?thesis by simp
qed

theorem reachable_inv_witness:
  "reachable GetMovedSegments ex_playlist ex_previous ex_config \<and>
   in_order ex_playlist ex_previous ex_config \<and> diff_inv (locals ex_config) \<and>
   prefix (changes (locals ex_config)) (changes ex_diff)"
  using reachable_inv [OF ex_config_reachable] ex_config_reachable by (simp add: ex_eval)

text \<open>
  \<^bold>\<open>C31.\<close> The reachable configurations are exactly the configurations in which
  the loops are in order (the first loop has a suffix of \<^verbatim>\<open>previous\<close> left, the second
  a suffix of \<^verbatim>\<open>playlist\<close>, and the second has not started before the first is
  done) and the locals are what the iterations done so far produce from the empty
  log and the empty map (\<open>so_far\<close>): no other value of the locals occurs in a run,
  and every such configuration does occur.
\<close>

theorem reachable_iff:
  "reachable g playlist previous c \<longleftrightarrow>
     in_order playlist previous c \<and> locals c = so_far g playlist previous c"
proof
  assume "reachable g playlist previous c"
  then show "in_order playlist previous c \<and> locals c = so_far g playlist previous c"
    by (simp add: reachable_in_order reachable_locals)
next
  assume a: "in_order playlist previous c \<and> locals c = so_far g playlist previous c"
  then have "c = (fst c, fst (snd c), so_far g playlist previous c)" by (cases c) auto
  with so_far_reachable [of playlist previous c g] a show "reachable g playlist previous c" by simp
qed

end
