(* ===== verification/Change_Replay.thy ===== *)
theory Change_Replay
  imports Diff_Log
begin

text \<open>
  What a change log means. \<^verbatim>\<open>DiffPlaylist\<close> returns a log for a consumer that holds
  the previous snapshot and brings it up to date; the consumer itself is outside the
  sources. This theory gives the log a meaning at the level of membership, which is
  all the records carry, and proves that the log of the differ is sound and complete
  for it.

  \<^item> A \<open>snapshot\<close> is what a playlist says about membership: for each rundown id,
    the set of the segment ids of the rundown with that id, if there is one
    (\<open>view\<close>).
  \<^item> \<open>apply_change\<close> is the effect of one record on a snapshot. A deleted rundown
    is removed. A created rundown is taken from the current playlist, since the log
    reports creation at the rundown level only and does not carry the segments. A
    created or deleted segment is added to or removed from its rundown. A moved or
    changed segment leaves membership as it is. \<open>replay\<close> applies a log in order.
  \<^item> \<open>refers\<close> says that a record is about things that exist where the record
    claims them: a deleted rundown in \<^verbatim>\<open>previous\<close> only, a created rundown in the
    playlist only, a created segment in the current rundown and not in the previous
    one, a deleted segment the other way round, a moved segment in both
    (\<open>has_segment\<close> looks a segment up in the rundown with the given id).
  \<^item> \<open>mirror\<close> turns a record into the record of the opposite direction:
    created into deleted and back.
  \<^item> \<open>resolver_ok\<close> is what the differ needs of the resolver for this: its result
    is a partition of the two segment orders (\<open>is_partition\<close>).
    \<open>resolver_minimal\<close> is the other half of the resolver's contract: the
    not-moved list is a longest common subsequence of the two orders (\<open>is_lcs\<close>).
    \<open>GetMovedSegments\<close> meets both; what is proved from them holds of the
    differ with any resolver that does.
\<close>

section \<open>Snapshots and the effect of a record\<close>

type_synonym snapshot = "RundownId \<Rightarrow> SegmentId set option"

definition view :: "'a ResolvedPlaylist \<Rightarrow> snapshot" where
  "view playlist rid = map_option (\<lambda>r. set (segments r)) (find_rundown rid playlist)"

definition on_rundown :: "RundownId \<Rightarrow> (SegmentId set \<Rightarrow> SegmentId set) \<Rightarrow> snapshot \<Rightarrow> snapshot" where
  "on_rundown rid f m = m(rid := map_option f (m rid))"

fun apply_change :: "snapshot \<Rightarrow> PlaylistChange \<Rightarrow> snapshot \<Rightarrow> snapshot" where
  "apply_change cur (RundownDeleted rid) m = m(rid := None)"
| "apply_change cur (RundownCreated rid) m = m(rid := cur rid)"
| "apply_change cur (SegmentCreated rid s) m = on_rundown rid (insert s) m"
| "apply_change cur (SegmentDeleted rid s) m = on_rundown rid (\<lambda>S. S - {s}) m"
| "apply_change cur (SegmentMoved rid s) m = m"
| "apply_change cur (SegmentChanged rid s) m = m"

definition replay :: "snapshot \<Rightarrow> PlaylistChange list \<Rightarrow> snapshot \<Rightarrow> snapshot" where
  "replay cur log m = fold (apply_change cur) log m"

definition rundown_effect ::
  "resolver \<Rightarrow> snapshot \<Rightarrow> 'a ResolvedPlaylist \<Rightarrow> 'b ResolvedPlaylistRundown_scheme \<Rightarrow>
     SegmentId set option \<Rightarrow> SegmentId set option" where
  "rundown_effect g cur previous r v =
     (case find_rundown (rundownId r) previous of
        None \<Rightarrow> cur (rundownId r)
      | Some p \<Rightarrow>
          map_option (\<lambda>S. S \<union> set (insertedSegments (g (segments p) (segments r))) -
            set (deletedSegments (g (segments p) (segments r)))) v)"

definition has_segment :: "'a ResolvedPlaylist \<Rightarrow> RundownId \<Rightarrow> SegmentId \<Rightarrow> bool" where
  "has_segment playlist rid s \<longleftrightarrow>
     (case find_rundown rid playlist of None \<Rightarrow> False | Some r \<Rightarrow> s \<in> set (segments r))"

fun refers :: "'a ResolvedPlaylist \<Rightarrow> 'b ResolvedPlaylist \<Rightarrow> PlaylistChange \<Rightarrow> bool" where
  "refers playlist previous (RundownDeleted rid) \<longleftrightarrow>
     rid \<in> set (rundownIds previous) \<and> rid \<notin> set (rundownIds playlist)"
| "refers playlist previous (RundownCreated rid) \<longleftrightarrow>
     rid \<in> set (rundownIds playlist) \<and> rid \<notin> set (rundownIds previous)"
| "refers playlist previous (SegmentCreated rid s) \<longleftrightarrow>
     has_segment playlist rid s \<and> rid \<in> set (rundownIds previous) \<and> \<not> has_segment previous rid s"
| "refers playlist previous (SegmentDeleted rid s) \<longleftrightarrow>
     has_segment previous rid s \<and> rid \<in> set (rundownIds playlist) \<and> \<not> has_segment playlist rid s"
| "refers playlist previous (SegmentMoved rid s) \<longleftrightarrow>
     has_segment previous rid s \<and> has_segment playlist rid s"
| "refers playlist previous (SegmentChanged rid s) \<longleftrightarrow>
     has_segment previous rid s \<and> has_segment playlist rid s"

fun mirror :: "PlaylistChange \<Rightarrow> PlaylistChange" where
  "mirror (RundownDeleted rid) = RundownCreated rid"
| "mirror (RundownCreated rid) = RundownDeleted rid"
| "mirror (SegmentDeleted rid s) = SegmentCreated rid s"
| "mirror (SegmentCreated rid s) = SegmentDeleted rid s"
| "mirror (SegmentMoved rid s) = SegmentMoved rid s"
| "mirror (SegmentChanged rid s) = SegmentChanged rid s"

definition resolver_ok :: "resolver \<Rightarrow> bool" where
  "resolver_ok g \<longleftrightarrow> (\<forall>p n. is_partition p n (g p n))"

definition resolver_minimal :: "resolver \<Rightarrow> bool" where
  "resolver_minimal g \<longleftrightarrow> (\<forall>p n. is_lcs (notMovedSegments (g p n)) p n)"

section \<open>Replaying the parts of a log\<close>

lemma replay_append [simp]: "replay cur (xs @ ys) m = replay cur ys (replay cur xs m)"
  by (simp add: replay_def)

lemma replay_Nil [simp]: "replay cur [] m = m"
  by (simp add: replay_def)

lemma replay_Cons [simp]: "replay cur (c # cs) m = replay cur cs (apply_change cur c m)"
  by (simp add: replay_def)

lemma replay_deleted:
  "replay cur (map RundownDeleted rids) m = (\<lambda>rid. if rid \<in> set rids then None else m rid)"
  by (induction rids arbitrary: m) (auto simp: fun_eq_iff)

lemma on_rundown_id [simp]: "on_rundown rid (\<lambda>S. S) m = m"
  by (simp add: on_rundown_def fun_eq_iff option.map_ident)

lemma on_rundown_comp [simp]:
  "on_rundown rid f (on_rundown rid g m) = on_rundown rid (\<lambda>S. f (g S)) m"
  by (simp add: on_rundown_def fun_eq_iff option.map_comp comp_def)

lemma replay_moved: "replay cur (map (SegmentMoved rid) xs) m = m"
  by (induction xs) simp_all

lemma replay_created:
  "replay cur (map (SegmentCreated rid) xs) m = on_rundown rid (\<lambda>S. S \<union> set xs) m"
  by (induction xs arbitrary: m) simp_all

lemma replay_segments_deleted:
  "replay cur (map (SegmentDeleted rid) xs) m = on_rundown rid (\<lambda>S. S - set xs) m"
  by (induction xs arbitrary: m) (simp_all flip: Diff_insert2)

lemma replay_segment_changes_of:
  "replay cur (segment_changes_of rid sc) m =
     on_rundown rid (\<lambda>S. S \<union> set (insertedSegments sc) - set (deletedSegments sc)) m"
  by (simp add: segment_changes_of_def replay_moved replay_created replay_segments_deleted)

lemma replay_rundown_changes:
  "replay cur (rundown_changes g previous r) m =
     m(rundownId r := rundown_effect g cur previous r (m (rundownId r)))"
  by (simp add: rundown_changes_def rundown_effect_def replay_segment_changes_of on_rundown_def
      split: option.splits)

lemma replay_playlist:
  assumes "distinct (rundownIds playlist)"
  shows "replay cur (concat (map (rundown_changes g previous) playlist)) m =
     (\<lambda>rid. case find_rundown rid playlist of
        None \<Rightarrow> m rid
      | Some r \<Rightarrow> rundown_effect g cur previous r (m rid))"
  using assms
proof (induction playlist arbitrary: m)
  case Nil
  show ?case by (simp add: find_rundown_def)
next
  case (Cons r rs)
  then have "find_rundown (rundownId r) rs = None" by (simp add: find_rundown_None_iff)
  with Cons show ?case
    by (auto simp: replay_rundown_changes find_rundown_def fun_eq_iff split: option.splits)
qed

section \<open>The contract of the resolver\<close>

lemma resolver_ok_GetMovedSegments: "resolver_ok GetMovedSegments"
  by (simp add: resolver_ok_def GetMovedSegments_partition)

lemma resolver_okD:
  assumes "resolver_ok g"
  shows "set (insertedSegments (g p n)) = set n - set p"
    and "set (deletedSegments (g p n)) = set p - set n"
    and "set (movedSegments (g p n)) \<subseteq> set p \<inter> set n"
  using assms unfolding resolver_ok_def is_partition_def by blast+

lemma resolver_minimal_GetMovedSegments: "resolver_minimal GetMovedSegments"
  by (simp add: resolver_minimal_def GetMovedSegments_minimal)

lemma resolver_minimalD: "resolver_minimal g \<Longrightarrow> is_lcs (notMovedSegments (g p n)) p n"
  by (simp add: resolver_minimal_def)

text \<open>
  A resolver that returns partitions and keeps a longest common subsequence in place
  reports nothing exactly when nothing changed: with distinct ids in both orders, the
  moved, inserted and deleted lists are all empty if and only if the two orders are
  the same sequence.
\<close>

lemma resolver_unchanged_iff:
  assumes "resolver_ok g" and "resolver_minimal g" and "distinct p" and "distinct n"
  shows "movedSegments (g p n) = [] \<and> insertedSegments (g p n) = [] \<and> deletedSegments (g p n) = [] \<longleftrightarrow>
    p = n" (is "?none \<longleftrightarrow> _")
proof
  let ?z = "notMovedSegments (g p n)"
  from assms(1) have part: "is_partition p n (g p n)" by (simp add: resolver_ok_def)
  note z = resolver_minimalD [OF assms(2), of p n]
  {
    assume "p = n"
    with z have "?z = n" by (simp add: is_lcs_same)
    with part \<open>p = n\<close> show ?none by (simp add: is_partition_same)
  next
    assume ?none
    with part have "set p \<subseteq> set ?z" and "set n \<subseteq> set ?z"
      by (auto simp: is_partition_def)
    moreover from z have "subseq ?z p" and "subseq ?z n" by (simp_all add: is_lcs_def)
    ultimately have "?z = p" and "?z = n" using assms(3,4) by (auto intro: subseq_same_set)
    then show "p = n" by simp
  }
qed

lemma view_Some: "find_rundown rid playlist = Some r \<Longrightarrow> view playlist rid = Some (set (segments r))"
  by (simp add: view_def)

lemma view_None_iff: "view playlist rid = None \<longleftrightarrow> rid \<notin> set (rundownIds playlist)"
  by (simp add: view_def find_rundown_None_iff)

lemma view_absent: "rid \<notin> set (rundownIds playlist) \<Longrightarrow> view playlist rid = None"
  by (simp add: view_None_iff)

lemma rundown_effect_view:
  assumes "resolver_ok g" and "find_rundown rid playlist = Some r"
  shows "rundown_effect g (view playlist) previous r (view previous rid) = view playlist rid"
proof (cases rid previous rule: find_rundown_cases)
  case absent
  with assms(2) find_rundown_SomeD [OF assms(2)] show ?thesis
    by (simp add: rundown_effect_def)
next
  case (present p)
  have "set (segments p) \<union> (set (segments r) - set (segments p)) -
      (set (segments p) - set (segments r)) = set (segments r)" by blast
  with present assms(2) find_rundown_SomeD [OF assms(2)] show ?thesis
    by (simp add: rundown_effect_def view_Some resolver_okD [OF assms(1)])
qed

section \<open>Replaying the log of the differ\<close>

lemma replay_changes_spec:
  assumes "resolver_ok g" and "distinct (rundownIds playlist)"
  shows "replay (view playlist) (changes_spec g playlist previous) (view previous) = view playlist"
proof
  fix rid
  let ?m = "\<lambda>rid. if rid \<in> set (deleted_rundowns playlist previous) then None else view previous rid"
  show "replay (view playlist) (changes_spec g playlist previous) (view previous) rid = view playlist rid"
  proof (cases rid playlist rule: find_rundown_cases)
    case absent
    then have "?m rid = None" by (auto simp: view_None_iff)
    with absent show ?thesis
      by (simp add: changes_spec_def replay_deleted replay_playlist [OF assms(2)] view_absent)
  next
    case (present r)
    then have "?m rid = view previous rid" by simp
    with present rundown_effect_view [OF assms(1) present(1), of previous] show ?thesis
      by (simp add: changes_spec_def replay_deleted replay_playlist [OF assms(2)])
  qed
qed

text \<open>
  \<^bold>\<open>C4.\<close> Replay. When the resolver returns partitions and the rundown ids of the
  playlist are distinct, replaying the log that \<^verbatim>\<open>DiffPlaylist\<close> returns on the
  snapshot of \<^verbatim>\<open>previous\<close> gives the snapshot of the playlist: the log accounts for
  every difference in membership between the two playlists, rundowns and segments,
  and reports nothing that is not a difference.
\<close>

theorem replay_DiffPlaylist:
  assumes "resolver_ok g" and "distinct (rundownIds playlist)"
  shows "replay (view playlist) (changes (DiffPlaylist_with g playlist previous)) (view previous) =
     view playlist"
  using replay_changes_spec [OF assms, of previous] by (simp add: diff_simps changes_spec_def)

theorem replay_DiffPlaylist_witness:
  "resolver_ok GetMovedSegments \<and> distinct (rundownIds ex_playlist) \<and>
   replay (view ex_playlist) (changes ex_diff) (view ex_previous) = view ex_playlist"
  using replay_DiffPlaylist [OF resolver_ok_GetMovedSegments ex_distinct(1), of ex_previous]
    resolver_ok_GetMovedSegments ex_distinct(1)
  by (simp add: ex_eval)

section \<open>What the records refer to\<close>

lemma has_segment_Some:
  "find_rundown rid playlist = Some r \<Longrightarrow> has_segment playlist rid s \<longleftrightarrow> s \<in> set (segments r)"
  by (simp add: has_segment_def)

lemma find_rundown_distinct:
  "distinct (rundownIds playlist) \<Longrightarrow> r \<in> set playlist \<Longrightarrow> find_rundown (rundownId r) playlist = Some r"
  by (simp add: find_rundown_def find_key_distinct)

lemma find_rundown_Some_mem:
  "find_rundown rid playlist = Some r \<Longrightarrow> rid \<in> set (rundownIds playlist)"
  using find_rundown_None_iff [of rid playlist] by auto

lemma core_rundown_found:
  assumes "distinct (rundownIds b)"
  shows "core_rundown r \<in> core_rundown ` set b \<longleftrightarrow>
    (\<exists>p. find_rundown (rundownId r) b = Some p \<and> segments p = segments r)"
proof
  assume "core_rundown r \<in> core_rundown ` set b"
  then obtain p where "p \<in> set b" "core_rundown r = core_rundown p" by auto
  with find_rundown_distinct [OF assms, of p]
  show "\<exists>p. find_rundown (rundownId r) b = Some p \<and> segments p = segments r"
    by (auto simp: core_rundown_eq_iff)
next
  assume "\<exists>p. find_rundown (rundownId r) b = Some p \<and> segments p = segments r"
  then obtain p where "find_rundown (rundownId r) b = Some p" "segments p = segments r" by blast
  with find_rundown_SomeD [of "rundownId r" b p]
  have "core_rundown r = core_rundown p" "p \<in> set b" by (simp_all add: core_rundown_eq_iff)
  then show "core_rundown r \<in> core_rundown ` set b" by (rule image_eqI)
qed

lemma refers_segment_changes_of:
  assumes "resolver_ok g" and "find_rundown rid playlist = Some r"
    and "find_rundown rid previous = Some p"
    and "c \<in> set (segment_changes_of rid (g (segments p) (segments r)))"
  shows "refers playlist previous c"
proof -
  let ?sc = "g (segments p) (segments r)"
  note mem = find_rundown_Some_mem [OF assms(2)] find_rundown_Some_mem [OF assms(3)]
  note has = has_segment_Some [OF assms(2)] has_segment_Some [OF assms(3)]
  note ok = resolver_okD [OF assms(1), of "segments p" "segments r"]
  from assms(4) consider
      s where "c = SegmentMoved rid s" "s \<in> set (movedSegments ?sc)"
    | s where "c = SegmentCreated rid s" "s \<in> set (insertedSegments ?sc)"
    | s where "c = SegmentDeleted rid s" "s \<in> set (deletedSegments ?sc)"
    by (auto simp: segment_changes_of_def)
  then show ?thesis
  proof cases
    case 1
    with ok(3) show ?thesis by (auto simp: has)
  next
    case 2
    with ok(1) mem show ?thesis by (simp add: has)
  next
    case 3
    with ok(2) mem show ?thesis by (simp add: has)
  qed
qed

lemma has_segment_mem: "has_segment playlist rid s \<Longrightarrow> rid \<in> set (rundownIds playlist)"
  by (auto simp: has_segment_def split: option.splits dest: find_rundown_Some_mem)

lemma has_segment_view: "has_segment playlist rid s \<longleftrightarrow> (\<exists>S. view playlist rid = Some S \<and> s \<in> S)"
  by (auto simp: has_segment_def view_def split: option.splits)

lemma in_changes_refers:
  assumes "resolver_ok g" and "distinct (rundownIds playlist)"
    and "c \<in> set (changes (DiffPlaylist_with g playlist previous))"
  shows "refers playlist previous c"
  using assms(3)
proof (cases rule: in_changes_cases)
  case deleted
  then show ?thesis by (metis refers.simps(1))
next
  case created
  then show ?thesis by (metis refers.simps(2))
next
  case (segment r p)
  from find_rundown_distinct [OF assms(2) segment(1)] segment(2,4) show ?thesis
    by (intro refers_segment_changes_of [OF assms(1)])
qed

text \<open>
  \<^bold>\<open>C21.\<close> Every record of the log is about things that exist where it claims
  them (\<open>refers\<close>), when the resolver returns partitions and the rundown ids of the
  playlist are distinct: a deleted rundown is in \<^verbatim>\<open>previous\<close> and not in the playlist,
  a created rundown the other way round, a created segment is in the current rundown
  and not in the previous one, a deleted segment the other way round, and a moved
  segment is in both.
\<close>

theorem log_refers:
  assumes "resolver_ok g" and "distinct (rundownIds playlist)"
  shows "list_all (refers playlist previous) (changes (DiffPlaylist_with g playlist previous))"
  unfolding list_all_iff using in_changes_refers [OF assms] by blast

theorem log_refers_witness:
  "resolver_ok GetMovedSegments \<and> distinct (rundownIds ex_playlist) \<and>
   list_all (refers ex_playlist ex_previous) (changes ex_diff)"
  using log_refers [OF resolver_ok_GetMovedSegments ex_distinct(1), of ex_previous]
    resolver_ok_GetMovedSegments ex_distinct(1)
  by (simp add: ex_eval)

section \<open>Swapping the playlists\<close>

lemma SegmentCreated_in_changes:
  assumes "resolver_ok g" and "distinct (rundownIds playlist)" and "distinct (rundownIds previous)"
  shows "SegmentCreated rid s \<in> set (changes (DiffPlaylist_with g playlist previous)) \<longleftrightarrow>
    rid \<in> set (rundownIds previous) \<and> has_segment playlist rid s \<and> \<not> has_segment previous rid s"
proof -
  have "is_segment_change (SegmentCreated rid s)" by (simp add: gw_defs)
  from segment_in_changes [OF assms(2,3) this, of g] resolver_okD(1) [OF assms(1)] show ?thesis
    by (cases rid playlist rule: find_rundown_cases; cases rid previous rule: find_rundown_cases)
       (auto simp: segment_changes_of_def has_segment_def)
qed

lemma SegmentDeleted_in_changes:
  assumes "resolver_ok g" and "distinct (rundownIds playlist)" and "distinct (rundownIds previous)"
  shows "SegmentDeleted rid s \<in> set (changes (DiffPlaylist_with g playlist previous)) \<longleftrightarrow>
    rid \<in> set (rundownIds playlist) \<and> has_segment previous rid s \<and> \<not> has_segment playlist rid s"
proof -
  have "is_segment_change (SegmentDeleted rid s)" by (simp add: gw_defs)
  from segment_in_changes [OF assms(2,3) this, of g] resolver_okD(2) [OF assms(1)] show ?thesis
    by (cases rid playlist rule: find_rundown_cases; cases rid previous rule: find_rundown_cases)
       (auto simp: segment_changes_of_def has_segment_def)
qed

text \<open>
  \<^bold>\<open>C25.\<close> Swapping the two playlists mirrors the log. When the resolver returns
  partitions and the rundown ids are distinct in each playlist, a record other than
  a move is in the log from \<open>b\<close> to \<open>a\<close> exactly when its mirror image is in the
  log from \<open>a\<close> to \<open>b\<close>: created and deleted change places, for rundowns and for
  segments. Moves are left out, since the resolver may keep different segments in
  place in the two directions.
\<close>

theorem diff_swap:
  assumes "resolver_ok g" and "distinct (rundownIds a)" and "distinct (rundownIds b)"
    and "change_type c \<noteq> PlaylistChangeSegmentMoved"
  shows "c \<in> set (changes (DiffPlaylist_with g a b)) \<longleftrightarrow>
    mirror c \<in> set (changes (DiffPlaylist_with g b a))"
  using assms(4)
  by (cases c)
     (auto simp: RundownDeleted_in_changes RundownCreated_in_changes SegmentChanged_notin_changes
        SegmentCreated_in_changes [OF assms(1)] SegmentDeleted_in_changes [OF assms(1)] assms(2,3))

theorem diff_swap_witness:
  "resolver_ok GetMovedSegments \<and> distinct (rundownIds ex_playlist) \<and>
   distinct (rundownIds ex_previous) \<and>
   change_type (RundownDeleted ''R0'') \<noteq> PlaylistChangeSegmentMoved \<and>
   RundownCreated ''R0'' \<in> set (changes (DiffPlaylist_with GetMovedSegments ex_previous ex_playlist))"
proof -
  have t: "change_type (RundownDeleted ''R0'') \<noteq> PlaylistChangeSegmentMoved" by simp
  from diff_swap [OF resolver_ok_GetMovedSegments ex_distinct t] resolver_ok_GetMovedSegments ex_distinct
  show ?thesis by (simp add: ex_eval ex_diff_def)
qed

end
