(* ===== verification/Replay_Laws.thy ===== *)
theory Replay_Laws
  imports Change_Replay Diff_Run "HOL-Library.Multiset"
begin

text \<open>
  Laws of replay: what a consumer of the change log may rely on beyond the fact
  that replaying the log yields the new snapshot.

  \<^item> \<open>conflicts\<close> holds of two records whose effects on a snapshot depend on the
    order in which they are applied: the creation of a rundown against its deletion
    or against a change of its segments, and the creation of a segment against the
    deletion of the same segment. All other pairs commute.
  \<^item> \<open>membership_records\<close> are the records of a log that say something about
    membership: all but the moves.
  \<^item> \<open>snapshot_at\<close> is the snapshot a configuration of the run stands for: the
    rundowns the second loop has visited as in the playlist, the rundowns the first
    loop has visited and found missing removed, and all others as in \<^verbatim>\<open>previous\<close>.

  The theory shows that records which refer to the two playlists never conflict, so
  the log of the differ may be replayed in any order; that the created and deleted
  records of the log are exactly the records that refer to the playlists, and that
  each of them is one no correct log can do without; and that the part of the
  log that has been written at any point of the run replays to the snapshot of that
  point, in which every rundown is either in its previous or in its new state.
\<close>

section \<open>Definitions\<close>

fun conflicts :: "PlaylistChange \<Rightarrow> PlaylistChange \<Rightarrow> bool" where
  "conflicts (RundownCreated r) (RundownDeleted r') \<longleftrightarrow> r = r'"
| "conflicts (RundownCreated r) (SegmentCreated r' s) \<longleftrightarrow> r = r'"
| "conflicts (RundownCreated r) (SegmentDeleted r' s) \<longleftrightarrow> r = r'"
| "conflicts (RundownDeleted r) (RundownCreated r') \<longleftrightarrow> r = r'"
| "conflicts (SegmentCreated r s) (RundownCreated r') \<longleftrightarrow> r = r'"
| "conflicts (SegmentDeleted r s) (RundownCreated r') \<longleftrightarrow> r = r'"
| "conflicts (SegmentCreated r s) (SegmentDeleted r' s') \<longleftrightarrow> r = r' \<and> s = s'"
| "conflicts (SegmentDeleted r s) (SegmentCreated r' s') \<longleftrightarrow> r = r' \<and> s = s'"
| "conflicts x y \<longleftrightarrow> False"

definition membership_records :: "PlaylistChange list \<Rightarrow> PlaylistChange list" where
  "membership_records log = filter (\<lambda>c. change_type c \<noteq> PlaylistChangeSegmentMoved) log"

definition snapshot_at :: "'a ResolvedPlaylist \<Rightarrow> 'b ResolvedPlaylist \<Rightarrow> ('a, 'b) config \<Rightarrow> snapshot" where
  "snapshot_at playlist previous c rid =
     (if rid \<in> set (rundownIds (done_playlist playlist c)) then view playlist rid
      else if rid \<in> set (rundownIds (done_previous previous c)) \<and> rid \<notin> set (rundownIds playlist)
        then None
      else view previous rid)"

definition ex_reversed :: "PlaylistChange list" where
  "ex_reversed =
     [RundownCreated ''R2'', SegmentCreated ''R1'' ''E'', SegmentMoved ''R1'' ''C'',
      RundownDeleted ''R0'']"

definition ex_membership :: "PlaylistChange list" where
  "ex_membership = [RundownDeleted ''R0'', SegmentCreated ''R1'' ''E'', RundownCreated ''R2'']"

section \<open>Records that refer to the playlists commute\<close>

lemma conflicts_sym: "conflicts x y \<longleftrightarrow> conflicts y x"
  by (cases x; cases y) auto

lemma apply_change_commute:
  assumes "\<not> conflicts x y"
  shows "apply_change cur x (apply_change cur y m) = apply_change cur y (apply_change cur x m)"
  using assms
  by (cases x; cases y)
     (auto simp: on_rundown_def fun_eq_iff option.map_comp comp_def intro!: option.map_cong)

lemma conflicts_order_matters:
  assumes "conflicts x y"
  shows "\<exists>cur m. apply_change cur x (apply_change cur y m) \<noteq> apply_change cur y (apply_change cur x m)"
proof -
  let ?m = "\<lambda>_ :: RundownId. Some ({} :: SegmentId set)"
  have "apply_change ?m x (apply_change ?m y ?m) \<noteq> apply_change ?m y (apply_change ?m x ?m) \<or>
      (\<exists>s. apply_change (\<lambda>_. Some {s}) x (apply_change (\<lambda>_. Some {s}) y ?m) \<noteq>
           apply_change (\<lambda>_. Some {s}) y (apply_change (\<lambda>_. Some {s}) x ?m))"
    using assms
    by (cases x; cases y) (auto simp: on_rundown_def fun_eq_iff)
  then show ?thesis by blast
qed

text \<open>
  So \<open>conflicts\<close> holds of exactly the pairs of records whose order of application
  can make a difference.
\<close>

lemma conflicts_iff:
  "conflicts x y \<longleftrightarrow>
     (\<exists>cur m. apply_change cur x (apply_change cur y m) \<noteq> apply_change cur y (apply_change cur x m))"
  using conflicts_order_matters [of x y] apply_change_commute [of x y] by blast

lemma refers_no_conflict:
  assumes "refers playlist previous x" and "refers playlist previous y"
  shows "\<not> conflicts x y"
  using assms by (cases x; cases y; simp del: set_map) (blast dest: has_segment_mem)+

lemma replay_permute:
  assumes "list_all (refers playlist previous) log" and "mset log' = mset log"
  shows "replay cur log' m = replay cur log m"
proof -
  have "fold (apply_change cur) log = fold (apply_change cur) log'"
  proof (rule fold_multiset_equiv)
    show "apply_change cur x \<circ> apply_change cur y = apply_change cur y \<circ> apply_change cur x"
      if "x \<in> set log" and "y \<in> set log" for x y
    proof -
      from that assms(1) have "refers playlist previous x" and "refers playlist previous y"
        by (simp_all add: list_all_iff)
      then have "\<not> conflicts x y" by (rule refers_no_conflict)
      then show ?thesis unfolding comp_def by (intro ext apply_change_commute)
    qed
    show "mset log = mset log'" using assms(2) by simp
  qed
  then show ?thesis by (simp add: replay_def)
qed

lemma replay_membership_records: "replay cur (membership_records log) m = replay cur log m"
  by (induction log arbitrary: m) (auto simp: membership_records_def elim: change_type.elims)

lemma changes_refer:
  assumes "resolver_ok g" and "distinct (rundownIds playlist)"
  shows "\<forall>c\<in>set (changes (DiffPlaylist_with g playlist previous)). refers playlist previous c"
  using in_changes_refers [OF assms] by blast

text \<open>
  \<^bold>\<open>C20.\<close> The log may be replayed in any order. When the resolver returns
  partitions and the rundown ids of the playlist are distinct, replaying any
  rearrangement of the log that \<^verbatim>\<open>DiffPlaylist\<close> returns on the snapshot of
  \<^verbatim>\<open>previous\<close> gives the snapshot of the playlist: no two records of the log
  conflict, so a consumer need not keep the emission order to arrive at the right
  membership.
\<close>

theorem replay_any_order:
  assumes "resolver_ok g" and "distinct (rundownIds playlist)"
    and "mset log = mset (changes (DiffPlaylist_with g playlist previous))"
  shows "replay (view playlist) log (view previous) = view playlist"
proof -
  have "list_all (refers playlist previous) (changes (DiffPlaylist_with g playlist previous))"
    unfolding list_all_iff by (rule changes_refer [OF assms(1,2)])
  from replay_permute [OF this assms(3)] replay_changes_spec [OF assms(1,2), of previous]
  show ?thesis by (simp add: diff_simps changes_spec_def)
qed

theorem replay_any_order_witness:
  "resolver_ok GetMovedSegments \<and> distinct (rundownIds ex_playlist) \<and>
   mset ex_reversed = mset (changes (DiffPlaylist_with GetMovedSegments ex_playlist ex_previous)) \<and>
   replay (view ex_playlist) ex_reversed (view ex_previous) = view ex_playlist"
proof -
  have m: "mset ex_reversed = mset (changes (DiffPlaylist_with GetMovedSegments ex_playlist ex_previous))"
    by (simp add: ex_reversed_def)
  from replay_any_order [OF resolver_ok_GetMovedSegments ex_distinct(1) m]
    resolver_ok_GetMovedSegments ex_distinct(1) m
  show ?thesis by simp
qed

section \<open>Records that no log can do without\<close>

lemma apply_change_None_iff:
  assumes "RundownDeleted rid \<noteq> c" and "RundownCreated rid \<noteq> c"
  shows "apply_change cur c m rid = None \<longleftrightarrow> m rid = None"
  using assms by (cases c) (auto simp: on_rundown_def)

lemma replay_None_iff:
  assumes "RundownDeleted rid \<notin> set log" and "RundownCreated rid \<notin> set log"
  shows "replay cur log m rid = None \<longleftrightarrow> m rid = None"
  using assms by (induction log arbitrary: m) (auto simp: apply_change_None_iff)

lemma apply_change_mem_iff:
  assumes "RundownDeleted rid \<noteq> c" and "RundownCreated rid \<noteq> c"
    and "SegmentCreated rid s \<noteq> c" and "SegmentDeleted rid s \<noteq> c"
  shows "(\<exists>S. apply_change cur c m rid = Some S \<and> s \<in> S) \<longleftrightarrow> (\<exists>S. m rid = Some S \<and> s \<in> S)"
  using assms by (cases c) (auto simp: on_rundown_def)

lemma replay_mem_iff:
  assumes "RundownDeleted rid \<notin> set log" and "RundownCreated rid \<notin> set log"
    and "SegmentCreated rid s \<notin> set log" and "SegmentDeleted rid s \<notin> set log"
  shows "(\<exists>S. replay cur log m rid = Some S \<and> s \<in> S) \<longleftrightarrow> (\<exists>S. m rid = Some S \<and> s \<in> S)"
  using assms
proof (induction log arbitrary: m)
  case Nil
  show ?case by simp
next
  case (Cons c log)
  then show ?case by (simp add: apply_change_mem_iff del: apply_change.simps)
qed

text \<open>
  A log of records that refer to the playlists and whose replay yields the playlist
  holds a rundown-level record for every rundown that only one playlist has, and a
  created or deleted record for every segment of a common rundown that only one of
  the two rundowns has: nothing else can make the rundown or the segment come or go.
\<close>

lemma rundown_record_needed:
  assumes log: "list_all (refers playlist previous) log"
    and sound: "replay (view playlist) log (view previous) = view playlist"
    and one: "rid \<in> set (rundownIds playlist) \<longleftrightarrow> rid \<notin> set (rundownIds previous)"
  shows "RundownDeleted rid \<in> set log \<or> RundownCreated rid \<in> set log"
proof (rule ccontr)
  assume "\<not> ?thesis"
  then have "RundownDeleted rid \<notin> set log" and "RundownCreated rid \<notin> set log" by simp_all
  from replay_None_iff [OF this, of "view playlist" "view previous"] one show False
    by (simp add: sound view_None_iff)
qed

lemma segment_record_needed:
  assumes log: "list_all (refers playlist previous) log"
    and sound: "replay (view playlist) log (view previous) = view playlist"
    and both: "rid \<in> set (rundownIds playlist)" "rid \<in> set (rundownIds previous)"
    and one: "has_segment playlist rid s \<longleftrightarrow> \<not> has_segment previous rid s"
  shows "SegmentCreated rid s \<in> set log \<or> SegmentDeleted rid s \<in> set log"
proof (rule ccontr)
  have refs: "refers playlist previous c" if "c \<in> set log" for c
    using log that by (simp add: list_all_iff)
  assume "\<not> ?thesis"
  moreover from refs [of "RundownDeleted rid"] refs [of "RundownCreated rid"] both
  have "RundownDeleted rid \<notin> set log" and "RundownCreated rid \<notin> set log" by auto
  ultimately have "(\<exists>S. replay (view playlist) log (view previous) rid = Some S \<and> s \<in> S) \<longleftrightarrow>
      (\<exists>S. view previous rid = Some S \<and> s \<in> S)"
    by (intro replay_mem_iff) simp_all
  with one show False by (simp add: sound flip: has_segment_view)
qed

text \<open>
  Hence a record that says something true about membership is in every such log.
\<close>

lemma needed_record:
  assumes c: "refers playlist previous c"
    and kind: "change_type c \<noteq> PlaylistChangeSegmentMoved" "change_type c \<noteq> PlaylistChangeSegmentChanged"
    and log: "list_all (refers playlist previous) log"
    and sound: "replay (view playlist) log (view previous) = view playlist"
  shows "c \<in> set log"
proof -
  have refs: "refers playlist previous c'" if "c' \<in> set log" for c'
    using log that by (simp add: list_all_iff)
  note rundown = rundown_record_needed [OF log sound] and segment = segment_record_needed [OF log sound]
  from kind show ?thesis
  proof (cases c)
    case (RundownDeleted rid)
    with c rundown [of rid] refs [of "RundownCreated rid"] show ?thesis by auto
  next
    case (RundownCreated rid)
    with c rundown [of rid] refs [of "RundownDeleted rid"] show ?thesis by auto
  next
    case (SegmentCreated rid s)
    with c segment [of rid s] refs [of "SegmentDeleted rid s"] has_segment_mem [of playlist rid s]
    show ?thesis by auto
  next
    case (SegmentDeleted rid s)
    with c segment [of rid s] refs [of "SegmentCreated rid s"] has_segment_mem [of previous rid s]
    show ?thesis by auto
  qed simp_all
qed

lemma membership_record_kind:
  assumes "c \<in> set (membership_records (changes (DiffPlaylist_with g playlist previous)))"
  shows "c \<in> set (changes (DiffPlaylist_with g playlist previous))"
    and "change_type c \<noteq> PlaylistChangeSegmentMoved"
    and "change_type c \<noteq> PlaylistChangeSegmentChanged"
proof -
  from assms show c: "c \<in> set (changes (DiffPlaylist_with g playlist previous))"
    and "change_type c \<noteq> PlaylistChangeSegmentMoved" by (simp_all add: membership_records_def)
  show "change_type c \<noteq> PlaylistChangeSegmentChanged"
  proof
    assume "change_type c = PlaylistChangeSegmentChanged"
    then obtain rid s where "c = SegmentChanged rid s" by (cases c) simp_all
    with c SegmentChanged_notin_changes show False by blast
  qed
qed

text \<open>
  \<^bold>\<open>C22.\<close> The created and deleted records of the log are exactly the true ones.
  When the resolver returns partitions and the rundown ids are distinct in each
  playlist, a record that is not a move (and not of the kind the differ never
  emits) is in the log of \<^verbatim>\<open>DiffPlaylist\<close> exactly when it refers to the two
  playlists: a deleted rundown that \<^verbatim>\<open>previous\<close> has and the playlist lacks, a
  created rundown the other way round, a created segment of a rundown of both that
  only the current rundown holds, a deleted segment that only the previous one
  holds.
\<close>

theorem log_exact:
  assumes "resolver_ok g" and "distinct (rundownIds playlist)" and "distinct (rundownIds previous)"
  shows "c \<in> set (membership_records (changes (DiffPlaylist_with g playlist previous))) \<longleftrightarrow>
     refers playlist previous c \<and> change_type c \<noteq> PlaylistChangeSegmentMoved \<and>
     change_type c \<noteq> PlaylistChangeSegmentChanged"
proof
  assume "c \<in> set (membership_records (changes (DiffPlaylist_with g playlist previous)))"
  note c = membership_record_kind [OF this]
  from in_changes_refers [OF assms(1,2) c(1)] c(2,3)
  show "refers playlist previous c \<and> change_type c \<noteq> PlaylistChangeSegmentMoved \<and>
      change_type c \<noteq> PlaylistChangeSegmentChanged" by simp
next
  assume "refers playlist previous c \<and> change_type c \<noteq> PlaylistChangeSegmentMoved \<and>
      change_type c \<noteq> PlaylistChangeSegmentChanged"
  then show "c \<in> set (membership_records (changes (DiffPlaylist_with g playlist previous)))"
    by (cases c)
       (auto simp: membership_records_def RundownDeleted_in_changes RundownCreated_in_changes
          SegmentCreated_in_changes [OF assms] SegmentDeleted_in_changes [OF assms])
qed

theorem log_exact_witness:
  "resolver_ok GetMovedSegments \<and> distinct (rundownIds ex_playlist) \<and>
   distinct (rundownIds ex_previous) \<and>
   SegmentCreated ''R1'' ''E'' \<in>
     set (membership_records (changes (DiffPlaylist_with GetMovedSegments ex_playlist ex_previous))) \<and>
   refers ex_playlist ex_previous (SegmentCreated ''R1'' ''E'')"
  using log_exact [OF resolver_ok_GetMovedSegments ex_distinct, of "SegmentCreated ''R1'' ''E''"]
    resolver_ok_GetMovedSegments ex_distinct
  by (simp add: membership_records_def)

lemma ex_membership_eq:
  "membership_records (changes (DiffPlaylist_with GetMovedSegments ex_playlist ex_previous)) =
     ex_membership"
  by (simp add: membership_records_def ex_membership_def)

text \<open>
  \<^bold>\<open>C19.\<close> The log reports no more than it must. When the resolver returns
  partitions and the rundown ids of the playlist are distinct, every record of the
  log of \<^verbatim>\<open>DiffPlaylist\<close> other than a move is in every log that is made of records
  which refer to the two playlists and whose replay on the snapshot of \<^verbatim>\<open>previous\<close>
  gives the snapshot of the playlist: the created and deleted records of the differ
  are the least set of records that brings a consumer up to date.
\<close>

theorem log_least:
  assumes "resolver_ok g" and "distinct (rundownIds playlist)"
    and "list_all (refers playlist previous) log"
    and "replay (view playlist) log (view previous) = view playlist"
  shows "set (membership_records (changes (DiffPlaylist_with g playlist previous))) \<subseteq> set log"
proof
  fix c
  assume "c \<in> set (membership_records (changes (DiffPlaylist_with g playlist previous)))"
  note c = membership_record_kind [OF this]
  from in_changes_refers [OF assms(1,2) c(1)] c(2,3) assms(3,4) show "c \<in> set log"
    by (rule needed_record)
qed

theorem log_least_witness:
  "resolver_ok GetMovedSegments \<and> distinct (rundownIds ex_playlist) \<and>
   list_all (refers ex_playlist ex_previous) ex_membership \<and>
   replay (view ex_playlist) ex_membership (view ex_previous) = view ex_playlist \<and>
   set (membership_records (changes (DiffPlaylist_with GetMovedSegments ex_playlist ex_previous)))
     \<subseteq> set ex_membership"
proof -
  note ok = resolver_ok_GetMovedSegments ex_distinct(1)
  have r: "list_all (refers ex_playlist ex_previous) ex_membership"
    using changes_refer [OF ok, of ex_previous] by (simp add: ex_membership_def)
  have "replay (view ex_playlist) (changes (DiffPlaylist_with GetMovedSegments ex_playlist ex_previous))
      (view ex_previous) = view ex_playlist"
    using replay_changes_spec [OF ok, of ex_previous] by (simp add: diff_simps changes_spec_def)
  then have s: "replay (view ex_playlist) ex_membership (view ex_previous) = view ex_playlist"
    by (simp add: replay_membership_records flip: ex_membership_eq)
  from log_least [OF ok r s] ok r s show ?thesis by simp
qed

section \<open>Replay along the run\<close>

lemma find_rundown_take:
  "find_rundown rid (take n playlist) = Some r \<Longrightarrow> find_rundown rid playlist = Some r"
  using find_append [of "\<lambda>p. rundownId p = rid" "take n playlist" "drop n playlist"]
  by (simp add: find_rundown_def)

lemma replay_so_far:
  assumes "resolver_ok g" and "distinct (rundownIds playlist)"
  shows "replay (view playlist) (changes (so_far g playlist previous c)) (view previous) =
     snapshot_at playlist previous c"
proof
  fix rid
  let ?xs = "done_previous previous c" and ?ys = "done_playlist playlist c"
  obtain n where n: "?ys = take n playlist" using done_playlist_take by blast
  with assms(2) have d: "distinct (rundownIds ?ys)" by (simp add: take_map [symmetric])
  show "replay (view playlist) (changes (so_far g playlist previous c)) (view previous) rid =
      snapshot_at playlist previous c rid"
  proof (cases rid ?ys rule: find_rundown_cases)
    case absent
    then show ?thesis
      by (auto simp: changes_so_far replay_deleted replay_playlist [OF d] snapshot_at_def
          deleted_rundowns_def)
  next
    case (present r)
    from present(1) have f: "find_rundown rid playlist = Some r"
      unfolding n by (rule find_rundown_take)
    then have "rid \<in> set (rundownIds playlist)" by (rule find_rundown_Some_mem)
    with present rundown_effect_view [OF assms(1) f, of previous] show ?thesis
      by (simp add: changes_so_far replay_deleted replay_playlist [OF d] snapshot_at_def
          deleted_rundowns_def)
  qed
qed

text \<open>
  \<^bold>\<open>C28.\<close> The log is consistent at every point of the run. When the resolver
  returns partitions and the rundown ids of the playlist are distinct, the records
  written at any configuration a run reaches replay, on the snapshot of
  \<^verbatim>\<open>previous\<close>, to the snapshot of that configuration: a rundown the second loop
  has visited is as in the playlist, a rundown the first loop has visited and not
  found in the playlist is gone, and every other rundown is as in \<^verbatim>\<open>previous\<close>. No
  rundown is ever left between its two states.
\<close>

theorem replay_along_run:
  assumes "resolver_ok g" and "distinct (rundownIds playlist)"
    and "reachable g playlist previous c"
  shows "replay (view playlist) (changes (locals c)) (view previous) = snapshot_at playlist previous c"
  using replay_so_far [OF assms(1,2)] reachable_locals [OF assms(3)] by simp

theorem replay_along_run_witness:
  "resolver_ok GetMovedSegments \<and> distinct (rundownIds ex_playlist) \<and>
   reachable GetMovedSegments ex_playlist ex_previous ex_config \<and>
   replay (view ex_playlist) (changes (locals ex_config)) (view ex_previous) =
     snapshot_at ex_playlist ex_previous ex_config"
  using replay_along_run [OF resolver_ok_GetMovedSegments ex_distinct(1) ex_config_reachable]
    resolver_ok_GetMovedSegments ex_distinct(1) ex_config_reachable
  by simp

end
