(* ===== verification/Parsed_INews.thy ===== *)
theory Parsed_INews
  imports Playlist_Model
begin

text \<open>
  The mapping stage, \<^verbatim>\<open>ParsedINewsIntoSegments.parse\<close> of
  \<^verbatim>\<open>src/src/classes/ParsedINewsToSegments.ts\<close>: one \<^verbatim>\<open>RundownSegment\<close> per raw
  story, in input order.

  \<^item> \<open>IParsedElement\<close> is the interface the file exports: an object with one field
    \<^verbatim>\<open>data\<close>, itself an object (\<open>IParsedElementData\<close>) whose fields are optional
    strings except \<^verbatim>\<open>float\<close>, which is a string that must be there. The fields of the
    inner object carry the prefix \<open>data_\<close>, since \<open>id\<close> is the identity function of
    HOL and \<open>name\<close> and \<open>float\<close> are fields of \<open>RundownSegment\<close>. No code of the
    sources reads or builds a value of this type, so there is nothing to prove of it.
  \<^item> \<open>INewsStory\<close>, \<open>IRawStory\<close> and \<open>RundownSegment\<close> are declared outside the
    sources; they are modelled from the fields \<^verbatim>\<open>parse\<close> reads and from the order of
    the constructor's arguments. A story's content beyond its \<^verbatim>\<open>id\<close> is the record
    extension \<open>'s\<close> and the modification marker is a type variable \<open>'m\<close>: \<^verbatim>\<open>parse\<close>
    copies both without looking at them. The field \<^verbatim>\<open>id\<close> is named \<open>story_id\<close>,
    since \<open>id\<close> is the identity function of HOL.
  \<^item> An optional or empty string is \<open>string option\<close>; \<open>or_empty\<close> is the
    JavaScript expression \<^verbatim>\<open>s || ''\<close>.
  \<^item> \<open>parse_step\<close> is the callback of the \<^verbatim>\<open>forEach\<close>, over the array built so
    far; \<open>parse\<close> runs it over the stories from the empty array. The rank of a
    segment is \<^verbatim>\<open>segments.length\<close> at the time it is built.
  \<^item> \<open>segment_of\<close> and \<open>parse_spec\<close> state the result without a loop;
    \<open>ranked\<close> is the invariant of the array under construction; \<open>segment_ids\<close>
    reads the segment ids off a segment list, which is how a rundown of a
    \<open>ResolvedPlaylist\<close> presents its segments to the differ.
\<close>

section \<open>Data\<close>

record IParsedElementData =
  data_id :: "string option"
  data_name :: "string option"
  data_type :: "string option"
  data_float :: string
  data_script :: "string option"
  data_objectType :: "string option"
  data_duration :: "string option"
  data_clipName :: "string option"

record IParsedElement =
  data :: IParsedElementData

record INewsStory =
  story_id :: "string option"

record ('s, 'm) IRawStory =
  storyName :: "string option"
  story :: "'s INewsStory_scheme"
  modified :: 'm

record ('s, 'm) RundownSegment =
  segmentRundownId :: RundownId
  iNewsStory :: "'s INewsStory_scheme"
  segmentModified :: 'm
  externalId :: SegmentId
  rank :: nat
  name :: string
  float :: bool

section \<open>Operations\<close>

definition or_empty :: "string option \<Rightarrow> string" where
  "or_empty s = (case s of None \<Rightarrow> '''' | Some v \<Rightarrow> v)"

definition parse_step ::
  "RundownId \<Rightarrow> ('s, 'm) IRawStory \<Rightarrow> ('s, 'm) RundownSegment list \<Rightarrow> ('s, 'm) RundownSegment list" where
  "parse_step sheetId st segs =
     (let segment =
        \<lparr>segmentRundownId = sheetId, iNewsStory = story st, segmentModified = modified st,
         externalId = or_empty (story_id (story st)), rank = length segs,
         name = or_empty (storyName st), float = False\<rparr>
      in push segment segs)"

definition parse :: "RundownId \<Rightarrow> ('s, 'm) IRawStory list \<Rightarrow> ('s, 'm) RundownSegment list" where
  "parse sheetId inewsRaw = fold (parse_step sheetId) inewsRaw []"

section \<open>Specification\<close>

definition segment_of :: "RundownId \<Rightarrow> nat \<Rightarrow> ('s, 'm) IRawStory \<Rightarrow> ('s, 'm) RundownSegment" where
  "segment_of sheetId i st =
     \<lparr>segmentRundownId = sheetId, iNewsStory = story st, segmentModified = modified st,
      externalId = or_empty (story_id (story st)), rank = i,
      name = or_empty (storyName st), float = False\<rparr>"

definition parse_spec :: "RundownId \<Rightarrow> ('s, 'm) IRawStory list \<Rightarrow> ('s, 'm) RundownSegment list" where
  "parse_spec sheetId inewsRaw =
     map (\<lambda>(i, st). segment_of sheetId i st) (zip [0..<length inewsRaw] inewsRaw)"

definition story_ids :: "('s, 'm) IRawStory list \<Rightarrow> SegmentId list" where
  "story_ids raw = map (\<lambda>st. or_empty (story_id (story st))) raw"

definition ranked :: "('s, 'm) RundownSegment list \<Rightarrow> bool" where
  "ranked segs \<longleftrightarrow> map rank segs = [0..<length segs]"

definition segment_ids :: "('s, 'm) RundownSegment list \<Rightarrow> SegmentId list" where
  "segment_ids segs = map externalId segs"

section \<open>The loop\<close>

lemma parse_step_eq: "parse_step sheetId st segs = segs @ [segment_of sheetId (length segs) st]"
  by (simp add: parse_step_def segment_of_def push_def)

lemma fold_parse_step:
  "fold (parse_step sheetId) raw segs =
     segs @ map (\<lambda>(i, st). segment_of sheetId i st) (zip [length segs..<length segs + length raw] raw)"
proof (induction raw arbitrary: segs)
  case Nil
  show ?case by simp
next
  case (Cons st raw)
  have "[length segs..<length segs + Suc (length raw)] =
      length segs # [Suc (length segs)..<Suc (length segs) + length raw]"
    by (simp add: upt_rec)
  with Cons [of "segs @ [segment_of sheetId (length segs) st]"] show ?case
    by (simp add: parse_step_eq)
qed

lemma length_parse [simp]: "length (parse sheetId raw) = length raw"
  using fold_parse_step [of sheetId raw "[]"] by (simp add: parse_def)

lemma nth_parse: "i < length raw \<Longrightarrow> parse sheetId raw ! i = segment_of sheetId i (raw ! i)"
  using fold_parse_step [of sheetId raw "[]"] by (simp add: parse_def)

lemmas parse_nth_simps = nth_parse segment_of_def

lemma externalId_parse: "map externalId (parse sheetId raw) = story_ids raw"
  unfolding story_ids_def by (rule nth_equalityI) (simp_all add: parse_nth_simps)

lemma ranked_parse_step: "ranked segs \<Longrightarrow> ranked (parse_step sheetId st segs)"
  by (simp add: ranked_def parse_step_eq segment_of_def)

section \<open>Properties of the mapping stage\<close>

text \<open>
  \<^bold>\<open>C10.\<close> \<^verbatim>\<open>parse\<close> refines its specification: the array it returns is the list
  of the stories paired with their positions, each turned into a segment of the
  sheet by \<open>segment_of\<close> (the story and its modification marker copied, the
  story's id and name with the empty string for a missing one, not floated).
\<close>

theorem parse_refines: "parse sheetId inewsRaw = parse_spec sheetId inewsRaw"
  using fold_parse_step [of sheetId inewsRaw "[]"] by (simp add: parse_def parse_spec_def)

text \<open>
  Ranks are positions: the ranks of the returned segments are
  \<open>0, 1, \<dots>, n - 1\<close> in this order, for \<open>n\<close> stories.
\<close>

lemma parse_ranks: "map rank (parse sheetId raw) = [0..<length raw]"
  by (rule nth_equalityI) (simp_all add: parse_nth_simps)

text \<open>
  Order is kept and nothing is dropped or merged: the segment ids of the
  result are \<open>story_ids\<close>, the ids of the stories in input order, the empty string
  standing for a missing id.
\<close>

lemma parse_ids: "segment_ids (parse sheetId raw) = story_ids raw"
  by (simp add: segment_ids_def externalId_parse)

text \<open>
  Every returned segment belongs to the given sheet and is not floated.
\<close>

lemma parse_sheet_float:
  "map segmentRundownId (parse sheetId raw) = replicate (length raw) sheetId \<and>
   map float (parse sheetId raw) = replicate (length raw) False"
  by (auto intro!: nth_equalityI simp: parse_nth_simps)

text \<open>
  Parsing is incremental: the segments of a story list followed by
  another are the segments of the first, followed by the segments of the second with
  their ranks shifted by the length of the first.
\<close>

lemma parse_append:
  "parse sheetId (xs @ ys) =
     parse sheetId xs @ map (\<lambda>s. s\<lparr>rank := rank s + length xs\<rparr>) (parse sheetId ys)"
  by (rule nth_equalityI) (auto simp: parse_nth_simps nth_append)

text \<open>
  \<^bold>\<open>C35.\<close> The array under construction is ranked at every iteration: if the
  ranks of the segments built so far are their positions, they still are after the
  callback has pushed the next segment.
\<close>

theorem parse_step_ranked:
  assumes "ranked segs"
  shows "ranked (parse_step sheetId st segs) \<and> length (parse_step sheetId st segs) = Suc (length segs)"
  using assms by (simp add: ranked_parse_step) (simp add: parse_step_eq)

theorem parse_step_ranked_witness:
  "ranked ([] :: (unit, nat) RundownSegment list) \<and>
   ranked (parse_step ''S'' \<lparr>storyName = Some ''n'', story = \<lparr>story_id = None\<rparr>, modified = (0::nat)\<rparr> [])"
proof -
  have h: "ranked ([] :: (unit, nat) RundownSegment list)" by (simp add: ranked_def)
  from parse_step_ranked [OF h] h show ?thesis by simp
qed

text \<open>
  \<^bold>\<open>C38.\<close> Stories without an id collide: two stories that both lack an id get
  the same segment id, the empty string, so the segment ids of the result are not
  distinct.
\<close>

theorem parse_missing_ids:
  assumes "story_id (story a) = None" and "story_id (story b) = None"
  shows "\<not> distinct (segment_ids (parse sheetId [a, b]))"
  using assms
  by (simp add: segment_ids_def parse_def parse_step_def push_def or_empty_def)

theorem parse_missing_ids_witness:
  "\<not> distinct (segment_ids (parse ''S''
      [\<lparr>storyName = Some ''a'', story = \<lparr>story_id = None\<rparr>, modified = (0::nat)\<rparr>,
       \<lparr>storyName = Some ''b'', story = \<lparr>story_id = None\<rparr>, modified = (1::nat)\<rparr>]))"
  using parse_missing_ids
    [of "\<lparr>storyName = Some ''a'', story = \<lparr>story_id = None\<rparr>, modified = (0::nat)\<rparr>"
        "\<lparr>storyName = Some ''b'', story = \<lparr>story_id = None\<rparr>, modified = (1::nat)\<rparr>" "''S''"]
  by simp

end
