(* ===== verification/Gateway_Monad.thy ===== *)
theory Gateway_Monad
  imports Gateway_Prelude "HOL-Library.State_Monad"
begin

text \<open>
  Statements over mutable locals. The two functions of the sources declare local
  variables (\<^verbatim>\<open>changes\<close> and \<^verbatim>\<open>segmentChanges\<close> in \<^verbatim>\<open>DiffPlaylist\<close>, \<^verbatim>\<open>segments\<close> in
  \<^verbatim>\<open>parse\<close>), update them statement by statement inside loops and return them. This
  theory holds what the statement-level models of both functions share: a statement
  is a computation of the state monad of \<open>HOL-Library.State_Monad\<close> over the
  locals, \<open>exec\<close> is the state it leaves and \<open>result\<close> the value it returns, and
  \<open>for_each\<close> is the loop over an array, \<^verbatim>\<open>for (x of xs) body\<close> as well as
  \<^verbatim>\<open>xs.forEach(x => body)\<close>: it runs the body for every element in array order.
  The lemmas reduce a statement to the function on states that it denotes, and a loop
  to the fold of its body, which is how the theories \<open>Diff_Playlist\<close> and
  \<open>Parsed_INews\<close> model the loops.
\<close>

section \<open>Statements and loops\<close>

type_synonym 's stmt = "('s, unit) state"

definition exec :: "('s, 'a) state \<Rightarrow> 's \<Rightarrow> 's" where
  "exec m st = snd (run_state m st)"

definition result :: "('s, 'a) state \<Rightarrow> 's \<Rightarrow> 'a" where
  "result m st = fst (run_state m st)"

fun for_each :: "('a \<Rightarrow> 's stmt) \<Rightarrow> 'a list \<Rightarrow> 's stmt" where
  "for_each body [] = State_Monad.return ()"
| "for_each body (x # xs) = do { body x; for_each body xs }"

section \<open>What a statement denotes\<close>

lemma run_state_eq: "run_state m st = (result m st, exec m st)"
  by (simp add: exec_def result_def)

lemma exec_return [simp]: "exec (State_Monad.return x) st = st"
  by (simp add: exec_def)

lemma result_return [simp]: "result (State_Monad.return x) st = x"
  by (simp add: result_def)

lemma exec_bind [simp]: "exec (m \<bind> f) st = exec (f (result m st)) (exec m st)"
  by (simp add: exec_def result_def split: prod.splits)

lemma result_bind [simp]: "result (m \<bind> f) st = result (f (result m st)) (exec m st)"
  by (simp add: exec_def result_def split: prod.splits)

lemma exec_get [simp]: "exec State_Monad.get st = st"
  by (simp add: exec_def State_Monad.get_def)

lemma result_get [simp]: "result State_Monad.get st = st"
  by (simp add: result_def State_Monad.get_def)

lemma exec_set [simp]: "exec (State_Monad.set st') st = st'"
  by (simp add: exec_def State_Monad.set_def)

lemma exec_update [simp]: "exec (State_Monad.update f) st = f st"
  by (simp add: exec_def State_Monad.update_def)

section \<open>Loops\<close>

lemma exec_for_each: "exec (for_each body xs) = fold (\<lambda>x. exec (body x)) xs"
proof
  show "exec (for_each body xs) st = fold (\<lambda>x. exec (body x)) xs st" for st
    by (induction xs arbitrary: st) simp_all
qed

text \<open>
  The rule for a loop invariant: what every iteration keeps holds after the loop.
\<close>

lemma for_each_inv:
  assumes "P st" and "\<And>x st. x \<in> set xs \<Longrightarrow> P st \<Longrightarrow> P (exec (body x) st)"
  shows "P (exec (for_each body xs) st)"
  using assms by (induction xs arbitrary: st) simp_all

end
