(* ===== verification/Diff_Monad.thy ===== *)
theory Diff_Monad
  imports Diff_Playlist Gateway_Monad
begin

text \<open>
  \<^verbatim>\<open>DiffPlaylist\<close> of \<^verbatim>\<open>src/src/helpers/DiffPlaylist.ts\<close>, statement by statement.
  The state is the record \<open>PlaylistDiff\<close> of the two locals. \<open>changes_push\<close> is
  the statement \<^verbatim>\<open>changes.push(c)\<close> and \<open>segmentChanges_set\<close> the statement
  \<^verbatim>\<open>segmentChanges.set(rid, sc)\<close>; \<open>deleted_body\<close> and \<open>current_body\<close> are the
  bodies of the two loops, with the lookup, the test of its result, the statements of
  the branch that ends in \<^verbatim>\<open>continue\<close> and, in the second loop, the statements after
  it; \<open>DiffPlaylist_m\<close> is the function body: the two declarations, the two loops
  and the \<^verbatim>\<open>return\<close> of an object built from the locals. The theory proves that
  every statement denotes the state function that \<open>Diff_Playlist\<close> gives for it,
  and so that the program returns \<open>DiffPlaylist_with\<close>, from whatever state it is
  started in.
\<close>

section \<open>Statements\<close>

definition changes_push :: "PlaylistChange \<Rightarrow> PlaylistDiff stmt" where
  "changes_push c = State_Monad.update (\<lambda>st. st\<lparr>changes := push c (changes st)\<rparr>)"

definition segmentChanges_set :: "RundownId \<Rightarrow> SegmentChanges \<Rightarrow> PlaylistDiff stmt" where
  "segmentChanges_set rid sc =
     State_Monad.update (\<lambda>st. st\<lparr>segmentChanges := js_set rid sc (segmentChanges st)\<rparr>)"

section \<open>The loop bodies and the function\<close>

definition deleted_body ::
  "'a ResolvedPlaylist \<Rightarrow> 'b ResolvedPlaylistRundown_scheme \<Rightarrow> PlaylistDiff stmt" where
  "deleted_body playlist rundown =
     (case find_rundown (rundownId rundown) playlist of
        None \<Rightarrow> do {
          changes_push (RundownDeleted (rundownId rundown));
          segmentChanges_set (rundownId rundown)
            \<lparr>movedSegments = [], notMovedSegments = [], insertedSegments = [],
             deletedSegments = []\<rparr>
        }
      | Some newRundown \<Rightarrow> State_Monad.return ())"

definition current_body ::
  "resolver \<Rightarrow> 'a ResolvedPlaylist \<Rightarrow> 'b ResolvedPlaylistRundown_scheme \<Rightarrow> PlaylistDiff stmt" where
  "current_body getMoved previous rundown =
     (case find_rundown (rundownId rundown) previous of
        None \<Rightarrow> do {
          changes_push (RundownCreated (rundownId rundown));
          segmentChanges_set (rundownId rundown)
            \<lparr>movedSegments = [], notMovedSegments = [], insertedSegments = [],
             deletedSegments = []\<rparr>
        }
      | Some prevRundown \<Rightarrow> do {
          let sc = getMoved (segments prevRundown) (segments rundown);
          for_each (\<lambda>s. changes_push (SegmentMoved (rundownId rundown) s)) (movedSegments sc);
          for_each (\<lambda>s. changes_push (SegmentCreated (rundownId rundown) s)) (insertedSegments sc);
          for_each (\<lambda>s. changes_push (SegmentDeleted (rundownId rundown) s)) (deletedSegments sc);
          segmentChanges_set (rundownId rundown)
            \<lparr>movedSegments = movedSegments sc, notMovedSegments = notMovedSegments sc,
             insertedSegments = insertedSegments sc, deletedSegments = deletedSegments sc\<rparr>
        })"

definition DiffPlaylist_m ::
  "resolver \<Rightarrow> 'a ResolvedPlaylist \<Rightarrow> 'b ResolvedPlaylist \<Rightarrow> (PlaylistDiff, PlaylistDiff) state" where
  "DiffPlaylist_m getMoved playlist previous = do {
     State_Monad.update (\<lambda>st. st\<lparr>changes := []\<rparr>);
     State_Monad.update (\<lambda>st. st\<lparr>segmentChanges := []\<rparr>);
     for_each (deleted_body playlist) previous;
     for_each (current_body getMoved previous) playlist;
     st \<leftarrow> State_Monad.get;
     State_Monad.return \<lparr>changes = changes st, segmentChanges = segmentChanges st\<rparr>
   }"

section \<open>What the statements denote\<close>

lemma exec_changes_push [simp]:
  "exec (changes_push c) st = st\<lparr>changes := push c (changes st)\<rparr>"
  by (simp add: changes_push_def)

lemma exec_segmentChanges_set [simp]:
  "exec (segmentChanges_set rid sc) st = st\<lparr>segmentChanges := js_set rid sc (segmentChanges st)\<rparr>"
  by (simp add: segmentChanges_set_def)

lemma exec_for_each_push:
  "exec (for_each (\<lambda>s. changes_push (f s)) xs) st = st\<lparr>changes := push_each f xs (changes st)\<rparr>"
  by (induction xs arbitrary: st) (simp_all add: push_each_def)

lemma exec_deleted_body: "exec (deleted_body playlist rundown) = deleted_step playlist rundown"
  by (rule ext) (simp add: deleted_body_def deleted_step_def gw_defs split: option.splits)

lemma exec_current_body:
  "exec (current_body g previous rundown) = current_step g previous rundown"
  by (rule ext)
    (simp add: current_body_def current_step_def emit_segment_changes_def exec_for_each_push
      gw_defs Let_def split: option.splits)

lemma exec_loops:
  "exec (do { for_each (deleted_body playlist) previous;
              for_each (current_body g previous) playlist }) init_diff =
     DiffPlaylist_with g playlist previous"
  by (simp add: exec_for_each exec_deleted_body exec_current_body DiffPlaylist_with_def)

section \<open>The invariant between statements\<close>

text \<open>
  \<open>diff_inv\<close> is an invariant of the loops, not of the statements: an iteration
  keeps it, but between the \<^verbatim>\<open>push\<close> of a rundown-level record and the \<^verbatim>\<open>set\<close>
  of the rundown's entry the log holds a record whose rundown has no entry yet.
\<close>

lemma loops_keep_inv:
  assumes "diff_inv st"
  shows "diff_inv (exec (for_each (deleted_body playlist) previous) st)"
    and "diff_inv (exec (for_each (current_body g previous') playlist') st)"
  using assms
  by (rule for_each_inv;
      simp add: exec_deleted_body exec_current_body diff_inv_deleted_step diff_inv_current_step)+

lemma push_breaks_inv: "\<not> diff_inv (exec (changes_push (RundownDeleted rid)) init_diff)"
  by (simp add: diff_inv_def init_diff_def push_def gw_defs)

section \<open>The program and the function\<close>

text \<open>
  \<^bold>\<open>C9.\<close> The statement-level program and the fold of the step functions are the
  same function. Run in any state of the locals, with any resolver and any two
  playlists, the program \<open>DiffPlaylist_m\<close> returns the value of
  \<open>DiffPlaylist_with\<close>, and this value is also the final state of the locals.
\<close>

theorem DiffPlaylist_m_run:
  "run_state (DiffPlaylist_m g playlist previous) st =
     (DiffPlaylist_with g playlist previous, DiffPlaylist_with g playlist previous)"
proof -
  have "st\<lparr>changes := [], segmentChanges := []\<rparr> = init_diff"
    by (simp add: init_diff_def)
  with exec_loops [of playlist previous g] show ?thesis
    by (simp add: run_state_eq DiffPlaylist_m_def)
qed

end
