(* ===== verification/Parse_Monad.thy ===== *)
theory Parse_Monad
  imports Parsed_INews Gateway_Monad
begin

text \<open>
  \<^verbatim>\<open>ParsedINewsIntoSegments.parse\<close> of
  \<^verbatim>\<open>src/src/classes/ParsedINewsToSegments.ts\<close>, statement by statement. The state is
  the local array \<^verbatim>\<open>segments\<close>. \<open>parse_body\<close> is the callback of the \<^verbatim>\<open>forEach\<close>:
  it reads \<^verbatim>\<open>segments.length\<close>, builds the segment and pushes it; \<open>parse_m\<close> is
  the method body: the declaration of the empty array, the loop and the \<^verbatim>\<open>return\<close>.
  The theory proves that the callback denotes \<open>parse_step\<close> and the program returns
  \<open>parse\<close>.
\<close>

section \<open>Statements\<close>

definition segments_length :: "('s list, nat) state" where
  "segments_length = do { segs \<leftarrow> State_Monad.get; State_Monad.return (length segs) }"

definition segments_push :: "'s \<Rightarrow> 's list stmt" where
  "segments_push segment = State_Monad.update (push segment)"

definition parse_body :: "RundownId \<Rightarrow> ('s, 'm) IRawStory \<Rightarrow> ('s, 'm) RundownSegment list stmt" where
  "parse_body sheetId st = do {
     n \<leftarrow> segments_length;
     let segment =
       \<lparr>segmentRundownId = sheetId, iNewsStory = story st, segmentModified = modified st,
        externalId = or_empty (story_id (story st)), rank = n,
        name = or_empty (storyName st), float = False\<rparr>;
     segments_push segment
   }"

definition parse_m ::
  "RundownId \<Rightarrow> ('s, 'm) IRawStory list \<Rightarrow>
     (('s, 'm) RundownSegment list, ('s, 'm) RundownSegment list) state" where
  "parse_m sheetId inewsRaw = do {
     State_Monad.set [];
     for_each (parse_body sheetId) inewsRaw;
     State_Monad.get
   }"

section \<open>The program and the function\<close>

lemma exec_parse_body: "exec (parse_body sheetId st) = parse_step sheetId st"
  by (rule ext) (simp add: parse_body_def parse_step_def segments_length_def segments_push_def)

text \<open>
  \<^bold>\<open>C11.\<close> The statement-level program of \<^verbatim>\<open>parse\<close> and the fold of the callback are
  the same function. Run in any state of the local array, for any sheet id and any
  stories, the program \<open>parse_m\<close> returns the value of \<open>parse\<close>, and this value
  is also the final state of the array.
\<close>

theorem parse_m_run:
  "run_state (parse_m sheetId inewsRaw) segs = (parse sheetId inewsRaw, parse sheetId inewsRaw)"
  by (simp add: run_state_eq parse_m_def exec_for_each exec_parse_body parse_def)

end
