(* ===== verification/Spec2Isabelle.thy ===== *)
theory Spec2Isabelle
  imports Gateway_Prelude Playlist_Model Move_Set_Resolver LCS_Table Diff_Playlist Diff_Log
    Diff_Locality Diff_Run Change_Replay Replay_Laws Parsed_INews Gateway_Monad Diff_Monad
    Parse_Monad
begin

text \<open>
  \<^bold>\<open>A verification development for the playlist reconciliation core of the iNews
  FTP gateway.\<close>

  \<^bold>\<open>The program.\<close> Two source files are given.
  \<^item> \<^verbatim>\<open>src/src/helpers/DiffPlaylist.ts\<close> declares the change vocabulary (the enum
    \<^verbatim>\<open>PlaylistChangeType\<close>, six \<^verbatim>\<open>PlaylistChange...\<close> interfaces and their union) and
    the function \<^verbatim>\<open>DiffPlaylist(playlist, previous)\<close>. The function walks
    \<^verbatim>\<open>previous\<close> and reports every rundown that \<^verbatim>\<open>playlist\<close> lacks as deleted, then
    walks \<^verbatim>\<open>playlist\<close>, reports every rundown that \<^verbatim>\<open>previous\<close> lacks as created, and
    for a rundown present in both calls \<^verbatim>\<open>GetMovedSegments\<close> on the two segment
    sequences and reports its moved, inserted and deleted segments, in this order.
    It returns the change log and a \<^verbatim>\<open>Map\<close> from rundown id to the resolver's four
    lists.
  \<^item> \<^verbatim>\<open>src/src/classes/ParsedINewsToSegments.ts\<close> declares
    \<^verbatim>\<open>ParsedINewsIntoSegments.parse(sheetId, inewsRaw)\<close>, which turns the raw stories
    of a sheet into segments, ranked by position, and the interface
    \<^verbatim>\<open>IParsedElement\<close>, which no code of the two files uses.
  \<^verbatim>\<open>GetMovedSegments\<close>, the id types, \<^verbatim>\<open>ResolvedPlaylist\<close>, \<^verbatim>\<open>IRawStory\<close> and
  \<^verbatim>\<open>RundownSegment\<close> are imported from modules that are not among the sources; they
  are modelled from the specification and from the way the two files use them.
  The data flows one way: stories are parsed into the segments of a rundown, and
  snapshots of the playlist of rundowns are diffed.

  \<^bold>\<open>The theories.\<close>
  \<^item> \<open>Gateway_Prelude\<close>: arrays as lists (\<open>push\<close>, \<open>push_each\<close>), a \<^verbatim>\<open>Map\<close> as an
    association list in insertion order (\<open>js_set\<close>, \<open>js_get\<close>, \<open>js_keys\<close>), the
    generic lemmas about them, and the collections \<open>gw_defs\<close> and \<open>gw_simps\<close>.
  \<^item> \<open>Playlist_Model\<close>: identifiers, rundowns and playlists; the enum
    \<open>PlaylistChangeType\<close>, the union \<open>PlaylistChange\<close> with its discriminator
    \<open>change_type\<close>; the result records \<open>SegmentChanges\<close> and \<open>PlaylistDiff\<close>; the
    well-formedness \<open>wf_playlist\<close> of a playlist.
  \<^item> \<open>Move_Set_Resolver\<close>: \<open>GetMovedSegments\<close> after section 4.1 of the
    specification, with a reference longest common subsequence \<open>lcs\<close>; its
    contract (\<open>is_partition\<close>, \<open>is_lcs\<close>) and the proofs that it meets it.
  \<^item> \<open>LCS_Table\<close>: the longest common subsequence by a dynamic-programming table
    and a walk through it, after the design notes of the specification
    (\<open>lcs_table\<close>, \<open>backtrack\<close>, \<open>lcs_dp\<close>, \<open>GetMovedSegments_dp\<close>), proved
    equal to the reference definitions. The walk is a recursion on two indices whose
    termination is proved by the measure of the remaining elements of both
    sequences.
  \<^item> \<open>Diff_Playlist\<close>: the differ. \<open>deleted_step\<close> and \<open>current_step\<close> are the
    bodies of the two loops over the state \<open>PlaylistDiff\<close> (the locals
    \<^verbatim>\<open>changes\<close> and \<^verbatim>\<open>segmentChanges\<close>), \<open>DiffPlaylist_with\<close> composes them as the
    function does, for any resolver, and \<open>DiffPlaylist\<close> is the function with the
    resolver of \<open>Move_Set_Resolver\<close>. \<open>changes_spec\<close>, \<open>summary_spec\<close> and
    \<open>keys_spec\<close> say what the result is without a state; the theory proves that
    the loops compute them and that the loop state keeps the invariant \<open>diff_inv\<close>.
  \<^item> \<open>Diff_Log\<close>: the properties of the log and of the map that follow, most of
    them for every resolver: which records the log holds and in which order, one
    decision per rundown, the entries of the map and their agreement with the log,
    the size of the log, and that the differ reads only the id and the segments of a
    rundown.
  \<^item> \<open>Diff_Locality\<close>: what the result depends on. \<open>resolver_calls\<close> lists
    the argument pairs of the calls of the resolver in call order; the result is the
    same with two resolvers exactly when they agree on these pairs. The records and
    the map entry of a rundown id are what the differ returns for the rundowns with
    that id alone (\<open>rundowns_with\<close>), with or without repeated ids.
  \<^item> \<open>Diff_Run\<close>: the run of the differ as a transition system. A configuration is
    what is left of the two arrays together with the locals; \<open>diff_step\<close> is one
    iteration of a loop, as an inductive relation over the step functions of
    \<open>Diff_Playlist\<close>. The theory proves that from every configuration of a run the
    relation arrives, after one step per rundown that is left, at the value
    \<open>DiffPlaylist_with\<close> returns, and, by induction over the reachable
    configurations, that every configuration satisfies \<open>diff_inv\<close> and holds a
    prefix of the returned log. \<open>so_far\<close> is the value of the locals after the
    iterations a configuration has behind it; the reachable configurations are
    exactly those whose loops are in order and whose locals are that value.
  \<^item> \<open>Change_Replay\<close>: what the log means. A snapshot is the membership a
    playlist states (rundown id to set of segment ids); \<open>apply_change\<close> is the
    effect of one record on a snapshot and \<open>replay\<close> the effect of a log. The
    theory proves that replaying the log of the differ on the previous snapshot gives
    the current one, and that every record refers to rundowns and segments that exist
    where the record claims them, for every resolver that returns partitions.
  \<^item> \<open>Replay_Laws\<close>: what a consumer may rely on. Two records conflict
    (\<open>conflicts\<close>) when their effect depends on the order of their application;
    records that refer to the playlists never do, so the log replays to the current
    snapshot in any order. The created and deleted records of the log
    (\<open>membership_records\<close>) are exactly the records that refer to the playlists,
    and every log of such records that replays correctly contains them. Along the
    run, the records written so far replay to \<open>snapshot_at\<close> of the
    configuration: every rundown is in its previous or in its new state, never in
    between.
  \<^item> \<open>Parsed_INews\<close>: the mapping stage. \<open>parse_step\<close> is the callback of the
    \<^verbatim>\<open>forEach\<close> over the array built so far and \<open>parse\<close> runs it over the stories;
    \<open>parse_spec\<close> states the result without a loop. The theory proves the
    refinement, the ranks, the ids and the invariant \<open>ranked\<close> of the array under
    construction.
  \<^item> \<open>Gateway_Monad\<close>, \<open>Diff_Monad\<close>, \<open>Parse_Monad\<close>: both functions
    statement by statement. A statement is a computation of the state monad of
    \<open>HOL-Library.State_Monad\<close> over the locals of its function, and \<open>for_each\<close>
    is the loop over an array (\<open>Gateway_Monad\<close>). \<open>DiffPlaylist_m\<close> is the
    body of \<^verbatim>\<open>DiffPlaylist\<close>: the declarations of \<^verbatim>\<open>changes\<close> and
    \<^verbatim>\<open>segmentChanges\<close>, the two loops with bodies \<open>deleted_body\<close> and
    \<open>current_body\<close> built from the statements \<open>changes_push\<close> and
    \<open>segmentChanges_set\<close>, and the \<^verbatim>\<open>return\<close>. \<open>parse_m\<close> is the body of
    \<^verbatim>\<open>parse\<close> with the callback \<open>parse_body\<close>. The theories prove that each
    loop body denotes the step function of \<open>Diff_Playlist\<close> or \<open>Parsed_INews\<close>
    and each program returns the value of the fold model, whatever state it starts
    in, so every theorem about \<open>DiffPlaylist_with\<close> and \<open>parse\<close> is a theorem
    about the programs; and that \<open>diff_inv\<close> is an invariant of the loops which
    does not hold between the two statements of a branch.
  \<^item> This theory: the properties of the differ that depend on the resolver
    (partition, minimality, fewest moves, that segments the log does not mention
    keep their order, the no-op diff, when the log is empty, one record per target,
    the size of the log), the two stages together (\<open>rundown_of\<close> builds a rundown
    from parsed stories), and the examples of the specification.

  \<^bold>\<open>Modelling choices.\<close> Both loops run over finite arrays, so they are folds of
  their step functions and every definition is total: no fuel and no bound is
  needed (the one recursion that is not structural, \<open>backtrack\<close>, has a
  termination proof). The code is modelled at three levels that are proved to
  agree: the statements of the function body (\<open>Diff_Monad\<close>), the iterations of
  its loops as a transition system (\<open>Diff_Run\<close>), and the fold of the step
  functions (\<open>Diff_Playlist\<close>), about which the properties are stated. JavaScript numbers appear only as the rank of a segment, which is an array
  length and is a natural number here. Nothing in the two files throws: a rundown that
  is not found is a branch of the code, modelled by \<open>option\<close>; a missing story id or
  name becomes the empty string. Objects are values: the code builds fresh objects
  and never mutates an argument, so no store is needed.

  \<^bold>\<open>Not modelled.\<close> Every declaration of the two source files has its
  definition; what is left is outside them and cannot be translated from code: the
  resolver \<^verbatim>\<open>GetMovedSegments\<close> (the reference recursion \<open>lcs\<close> and the table of
  \<open>LCS_Table\<close> follow the specification), the classes \<^verbatim>\<open>RundownSegment\<close> and
  \<^verbatim>\<open>IRawStory\<close> beyond the fields \<^verbatim>\<open>parse\<close> touches, the consumer of the log (the
  replay of \<open>Change_Replay\<close> and \<open>Replay_Laws\<close> is its meaning at the level of
  membership, not its code: the position of a segment within a rundown, which a
  \<^verbatim>\<open>SegmentMoved\<close> record is about, is not part of a snapshot, because the records
  carry no position), and persistence, network and messaging around the two files.
  Within the two files, the numbers that TypeScript gives the members of
  \<^verbatim>\<open>PlaylistChangeType\<close> are left out, since no code reads them. Where a theorem is
  about \<open>DiffPlaylist\<close>, the differ with the resolver of \<open>Move_Set_Resolver\<close>,
  or about \<open>rundown_of\<close>, it is a theorem about the code together with these
  models of what the code imports; the theorems about \<open>DiffPlaylist_with\<close> hold
  for every resolver, or for every resolver that meets the stated contract.
\<close>

section \<open>A playlist with a duplicate rundown id\<close>

definition ex_duplicate :: "unit ResolvedPlaylist" where
  "ex_duplicate =
     [\<lparr>rundownId = ''R1'', segments = [''A'']\<rparr>, \<lparr>rundownId = ''R1'', segments = [''B'']\<rparr>]"

definition ex_repeated :: "unit ResolvedPlaylist" where
  "ex_repeated =
     [\<lparr>rundownId = ''R1'', segments = []\<rparr>, \<lparr>rundownId = ''R1'', segments = []\<rparr>,
      \<lparr>rundownId = ''R1'', segments = []\<rparr>]"

definition ex_three :: "unit ResolvedPlaylist" where
  "ex_three = [\<lparr>rundownId = ''R1'', segments = [''A'', ''B'', ''C'']\<rparr>]"

section \<open>From stories to a rundown\<close>

definition rundown_of :: "RundownId \<Rightarrow> ('s, 'm) IRawStory list \<Rightarrow> ResolvedPlaylistRundown" where
  "rundown_of sheetId inewsRaw =
     \<lparr>rundownId = sheetId, segments = segment_ids (parse sheetId inewsRaw)\<rparr>"

definition ex_stories :: "(unit, nat) IRawStory list" where
  "ex_stories =
     [\<lparr>storyName = Some ''Intro'', story = \<lparr>story_id = Some ''A''\<rparr>, modified = 1\<rparr>,
      \<lparr>storyName = None, story = \<lparr>story_id = Some ''B''\<rparr>, modified = 2\<rparr>]"

definition ex_added :: "(unit, nat) IRawStory list" where
  "ex_added = [\<lparr>storyName = Some ''Sport'', story = \<lparr>story_id = Some ''C''\<rparr>, modified = 3\<rparr>]"

definition ex_swapped :: "(unit, nat) IRawStory list" where
  "ex_swapped = rev ex_stories"

section \<open>The differ with the resolver\<close>

lemma ex_find:
  "find_rundown ''R1'' ex_playlist =
     Some \<lparr>rundownId = ''R1'', segments = [''A'', ''C'', ''B'', ''D'', ''E'']\<rparr>"
  "find_rundown ''R1'' ex_previous =
     Some \<lparr>rundownId = ''R1'', segments = [''A'', ''B'', ''C'', ''D'']\<rparr>"
  by (simp_all add: find_rundown_def ex_playlist_def ex_previous_def)

lemma ex_R1:
  "js_get (segmentChanges (DiffPlaylist ex_playlist ex_previous)) ''R1'' =
     Some \<lparr>movedSegments = [''C''], notMovedSegments = [''A'', ''B'', ''D''],
            insertedSegments = [''E''], deletedSegments = []\<rparr>"
  by (simp add: DiffPlaylist_def ex_eval ex_diff_def)

text \<open>
  \<^bold>\<open>C5.\<close> Partition. When the rundown ids of the playlist are distinct and a
  rundown id is found in both playlists, the map has an entry for it whose moved and
  not-moved lists together hold exactly the segment ids common to the previous and
  the current order and share no id, whose inserted list holds exactly the ids
  that only the current order has, and whose deleted list holds exactly the ids
  that only the previous order has (\<open>is_partition\<close>; by \<open>is_partition_cover\<close> and
  \<open>is_partition_disjoint\<close> the four lists cover the union of both orders and are
  pairwise disjoint).
\<close>

theorem DiffPlaylist_partition:
  assumes "distinct (rundownIds playlist)"
    and "find_rundown rid playlist = Some r" and "find_rundown rid previous = Some p"
  shows "\<exists>sc. js_get (segmentChanges (DiffPlaylist playlist previous)) rid = Some sc \<and>
    is_partition (segments p) (segments r) sc"
  using js_get_present [OF assms, of GetMovedSegments]
  by (simp add: DiffPlaylist_def GetMovedSegments_partition)

theorem DiffPlaylist_partition_witness:
  "distinct (rundownIds ex_playlist) \<and>
   find_rundown ''R1'' ex_playlist =
     Some \<lparr>rundownId = ''R1'', segments = [''A'', ''C'', ''B'', ''D'', ''E'']\<rparr> \<and>
   find_rundown ''R1'' ex_previous =
     Some \<lparr>rundownId = ''R1'', segments = [''A'', ''B'', ''C'', ''D'']\<rparr> \<and>
   js_get (segmentChanges (DiffPlaylist ex_playlist ex_previous)) ''R1'' =
     Some \<lparr>movedSegments = [''C''], notMovedSegments = [''A'', ''B'', ''D''],
            insertedSegments = [''E''], deletedSegments = []\<rparr> \<and>
   is_partition [''A'', ''B'', ''C'', ''D''] [''A'', ''C'', ''B'', ''D'', ''E'']
     \<lparr>movedSegments = [''C''], notMovedSegments = [''A'', ''B'', ''D''],
      insertedSegments = [''E''], deletedSegments = []\<rparr>"
  using DiffPlaylist_partition [OF ex_distinct(1) ex_find] ex_distinct(1) ex_find
  by (simp add: ex_R1)

text \<open>
  \<^bold>\<open>C6.\<close> Minimality. Under the same conditions the entry's not-moved list is a
  longest common subsequence of the previous and the current segment order: it is
  a subsequence of both, and no common subsequence of the two is longer.
\<close>

theorem DiffPlaylist_minimal:
  assumes "distinct (rundownIds playlist)"
    and "find_rundown rid playlist = Some r" and "find_rundown rid previous = Some p"
  shows "\<exists>sc. js_get (segmentChanges (DiffPlaylist playlist previous)) rid = Some sc \<and>
    is_lcs (notMovedSegments sc) (segments p) (segments r)"
  using js_get_present [OF assms, of GetMovedSegments]
  by (simp add: DiffPlaylist_def GetMovedSegments_minimal)

theorem DiffPlaylist_minimal_witness:
  "distinct (rundownIds ex_playlist) \<and>
   find_rundown ''R1'' ex_playlist =
     Some \<lparr>rundownId = ''R1'', segments = [''A'', ''C'', ''B'', ''D'', ''E'']\<rparr> \<and>
   find_rundown ''R1'' ex_previous =
     Some \<lparr>rundownId = ''R1'', segments = [''A'', ''B'', ''C'', ''D'']\<rparr> \<and>
   notMovedSegments (the (js_get (segmentChanges (DiffPlaylist ex_playlist ex_previous)) ''R1'')) =
     [''A'', ''B'', ''D''] \<and>
   is_lcs [''A'', ''B'', ''D''] [''A'', ''B'', ''C'', ''D''] [''A'', ''C'', ''B'', ''D'', ''E'']"
  using DiffPlaylist_minimal [OF ex_distinct(1) ex_find] ex_distinct(1) ex_find
  by (simp add: ex_R1)

text \<open>
  \<^bold>\<open>C7.\<close> The no-op diff. Diffing a playlist with distinct rundown ids against
  itself returns an empty change log and, for every rundown in playlist order, an
  entry with no moved, inserted or deleted segment and all segments not moved.
\<close>

theorem DiffPlaylist_noop:
  assumes "distinct (rundownIds playlist)"
  shows "DiffPlaylist playlist playlist =
    \<lparr>changes = [],
     segmentChanges =
       map (\<lambda>r. (rundownId r,
         \<lparr>movedSegments = [], notMovedSegments = segments r,
          insertedSegments = [], deletedSegments = []\<rparr>)) playlist\<rparr>"
proof -
  have same: "find_rundown (rundownId r) playlist = Some r" if "r \<in> set playlist" for r
    using assms that by (simp add: find_rundown_def find_key_distinct)
  have "rundown_changes GetMovedSegments playlist r = []" if "r \<in> set playlist" for r
    using same [OF that]
    by (simp add: rundown_changes_def segment_changes_of_def GetMovedSegments_same)
  then have "changes (DiffPlaylist playlist playlist) = []"
    by (simp add: DiffPlaylist_def diff_simps deleted_rundowns_def)
  moreover have "rundown_summary GetMovedSegments playlist r =
      \<lparr>movedSegments = [], notMovedSegments = segments r,
       insertedSegments = [], deletedSegments = []\<rparr>" if "r \<in> set playlist" for r
    using same [OF that] by (simp add: rundown_summary_def GetMovedSegments_same)
  then have "segmentChanges (DiffPlaylist playlist playlist) =
      map (\<lambda>r. (rundownId r,
        \<lparr>movedSegments = [], notMovedSegments = segments r,
         insertedSegments = [], deletedSegments = []\<rparr>)) playlist"
    using assms by (simp add: DiffPlaylist_def segmentChanges_distinct deleted_rundowns_def)
  ultimately show ?thesis by (cases "DiffPlaylist playlist playlist") simp
qed

theorem DiffPlaylist_noop_witness:
  "distinct (rundownIds ex_playlist) \<and>
   DiffPlaylist ex_playlist ex_playlist =
     \<lparr>changes = [],
      segmentChanges =
        [(''R1'', \<lparr>movedSegments = [], notMovedSegments = [''A'', ''C'', ''B'', ''D'', ''E''],
                  insertedSegments = [], deletedSegments = []\<rparr>),
         (''R2'', \<lparr>movedSegments = [], notMovedSegments = [''P'', ''Q'', ''R''],
                  insertedSegments = [], deletedSegments = []\<rparr>)]\<rparr>"
  using DiffPlaylist_noop [OF ex_distinct(1)] ex_distinct(1)
  by (simp add: ex_playlist_def)

lemma ex_wf: "wf_playlist ex_playlist" "wf_playlist ex_previous"
  by (simp_all add: wf_playlist_def ex_playlist_def ex_previous_def)

section \<open>When the log is empty\<close>

text \<open>
  A rundown of the current playlist contributes no record exactly when the previous
  playlist has a rundown with its id and the same segments; the log is empty when
  this holds of every rundown and no rundown was deleted.
\<close>

lemma rundown_changes_empty_iff:
  assumes "resolver_ok g" and "resolver_minimal g"
    and "distinct (segments r)" and "\<And>p. p \<in> set previous \<Longrightarrow> distinct (segments p)"
  shows "rundown_changes g previous r = [] \<longleftrightarrow>
    (\<exists>p. find_rundown (rundownId r) previous = Some p \<and> segments p = segments r)"
proof (cases "rundownId r" previous rule: find_rundown_cases)
  case absent
  then show ?thesis by (simp add: rundown_changes_def)
next
  case (present p)
  with resolver_unchanged_iff [OF assms(1,2) assms(4) [OF present(3)] assms(3)] show ?thesis
    by (simp add: rundown_changes_def segment_changes_of_def)
qed

lemma changes_empty_iff:
  assumes "resolver_ok g" and "resolver_minimal g" and "wf_playlist a" and "wf_playlist b"
  shows "changes (DiffPlaylist_with g a b) = [] \<longleftrightarrow>
    set (rundownIds b) \<subseteq> set (rundownIds a) \<and>
    (\<forall>r\<in>set a. \<exists>p. find_rundown (rundownId r) b = Some p \<and> segments p = segments r)"
  using assms
  by (auto simp: diff_simps rundown_changes_empty_iff wf_playlistD
      deleted_rundowns_def filter_empty_conv)

text \<open>
  For playlists with distinct rundown ids, this is to say that the two playlists hold
  the same rundowns, as ids with their segments, in whatever order.
\<close>

lemma same_rundowns_iff:
  assumes "distinct (rundownIds b)"
  shows "set (map core_rundown a) = set (map core_rundown b) \<longleftrightarrow>
    set (rundownIds b) \<subseteq> set (rundownIds a) \<and>
    (\<forall>r\<in>set a. \<exists>p. find_rundown (rundownId r) b = Some p \<and> segments p = segments r)"
    (is "?same \<longleftrightarrow> ?ids \<and> ?segs")
proof -
  have segs: "core_rundown ` set a \<subseteq> core_rundown ` set b \<longleftrightarrow> ?segs"
    by (simp add: image_subset_iff core_rundown_found [OF assms])
  have "core_rundown p \<in> core_rundown ` set a \<longleftrightarrow> rundownId p \<in> rundownId ` set a"
    if ?segs and "p \<in> set b" for p
  proof
    assume "rundownId p \<in> rundownId ` set a"
    then obtain r where r: "r \<in> set a" "rundownId r = rundownId p" by auto
    with \<open>?segs\<close> find_rundown_distinct [OF assms \<open>p \<in> set b\<close>]
    have "core_rundown p = core_rundown r" by (auto simp: core_rundown_eq_iff)
    then show "core_rundown p \<in> core_rundown ` set a" using r(1) by (rule image_eqI)
  qed (auto simp: core_rundown_eq_iff)
  then have "?segs \<Longrightarrow> core_rundown ` set b \<subseteq> core_rundown ` set a \<longleftrightarrow> ?ids"
    by (simp add: image_subset_iff)
  with segs show ?thesis by (auto simp: set_eq_subset)
qed

text \<open>
  \<^bold>\<open>C8.\<close> The log is empty exactly when nothing the differ can see has changed.
  With a resolver that meets its contract (partition and longest common
  subsequence) and well-formed playlists, the change log is empty if and only if the
  two playlists hold the same set of rundowns, a rundown being its id with its
  segment sequence. The order of the rundowns within the playlist is not part of
  this: the differ reports a reordering of segments within a rundown, and never a
  reordering of rundowns within the playlist.
\<close>

theorem empty_log_iff:
  assumes "resolver_ok g" and "resolver_minimal g" and "wf_playlist a" and "wf_playlist b"
  shows "changes (DiffPlaylist_with g a b) = [] \<longleftrightarrow>
    set (map core_rundown a) = set (map core_rundown b)"
  using assms changes_empty_iff [of g a b] same_rundowns_iff [of b a] by (simp add: wf_playlistD)

theorem empty_log_iff_witness:
  "resolver_ok GetMovedSegments \<and> resolver_minimal GetMovedSegments \<and>
   wf_playlist ex_playlist \<and> wf_playlist (rev ex_playlist) \<and>
   (changes (DiffPlaylist_with GetMovedSegments ex_playlist (rev ex_playlist)) = [] \<longleftrightarrow>
    set (map core_rundown ex_playlist) = set (map core_rundown (rev ex_playlist))) \<and>
   changes (DiffPlaylist_with GetMovedSegments ex_playlist (rev ex_playlist)) = [] \<and>
   rev ex_playlist \<noteq> ex_playlist"
  using empty_log_iff [OF resolver_ok_GetMovedSegments resolver_minimal_GetMovedSegments, of ex_playlist "rev ex_playlist"]
    ex_wf(1) resolver_ok_GetMovedSegments resolver_minimal_GetMovedSegments
  by (simp add: wf_playlist_rev flip: rev_map) (simp add: ex_playlist_def)

text \<open>
  In particular, two well-formed playlists with the same rundowns in any order have
  an empty log, and so have two rundowns that changed places.
\<close>

lemma rundowns_permuted:
  assumes "resolver_ok g" and "resolver_minimal g" and "wf_playlist a" and "wf_playlist b" and "set a = set b"
  shows "changes (DiffPlaylist_with g a b) = []"
  using assms changes_empty_iff [of g a b] same_rundowns_iff [of b a] by (simp add: wf_playlistD)

lemma rundowns_swapped:
  assumes "rundownId r \<noteq> rundownId p" and "distinct (segments r)" and "distinct (segments p)"
  shows "changes (DiffPlaylist [r, p] [p, r]) = []"
  unfolding DiffPlaylist_def using assms
  by (intro rundowns_permuted resolver_ok_GetMovedSegments resolver_minimal_GetMovedSegments)
    (auto simp: wf_playlist_def)

text \<open>
  The condition on the segment ids is needed: a segment id that is repeated within a
  rundown is in both orders as soon as it is in one, and the resolver reports
  nothing although the sequences differ.
\<close>

lemma duplicate_segment_unreported:
  "changes (DiffPlaylist [\<lparr>rundownId = ''R1'', segments = [''A'', ''B'', ''A'']\<rparr>]
     [\<lparr>rundownId = ''R1'', segments = [''A'', ''B'']\<rparr>]) = []"
  by (simp add: DiffPlaylist_def DiffPlaylist_with_def gw_defs
      GetMovedSegments_def common_segments_def push_def push_each_eq)

text \<open>
  \<^bold>\<open>C14.\<close> One record per target. For well-formed playlists (unique rundown
  ids, unique segment ids within each rundown) no two records of the change log have
  the same target: a rundown gets at most one rundown-level record, and a segment of
  a rundown gets at most one of moved, created and deleted. In particular no record
  occurs twice.
\<close>

theorem one_change_per_target:
  assumes "wf_playlist playlist" and "wf_playlist previous"
  shows "distinct (map change_target (changes (DiffPlaylist playlist previous)))"
  using distinct_targets_spec [OF assms]
  by (simp add: DiffPlaylist_def diff_simps changes_spec_def)

theorem one_change_per_target_witness:
  "wf_playlist ex_playlist \<and> wf_playlist ex_previous \<and>
   distinct (map change_target (changes (DiffPlaylist ex_playlist ex_previous)))"
  using one_change_per_target [OF ex_wf] ex_wf by simp

text \<open>
  \<^bold>\<open>C15.\<close> Fewest moves. For well-formed playlists and a rundown found in both,
  the number of \<open>SegmentMoved\<close> records of that rundown in the log, plus the
  length of any common subsequence of the previous and the current segment order, is
  at most the number of common segments: no classification that keeps a common
  subsequence in place moves fewer segments than the log reports.
\<close>

theorem moved_records_minimal:
  assumes "wf_playlist playlist" and "wf_playlist previous"
    and "find_rundown rid playlist = Some r" and "find_rundown rid previous = Some p"
    and "subseq zs (segments p)" and "subseq zs (segments r)"
  shows "length (filter (\<lambda>c. change_type c = PlaylistChangeSegmentMoved)
      (filter (\<lambda>c. rundownExternalId c = rid) (changes (DiffPlaylist playlist previous)))) +
    length zs \<le> length (common_segments (segments r) (segments p))"
proof -
  from assms(1,3) have r: "distinct (segments r)" "rundownId r = rid"
    by (auto dest: find_rundown_SomeD wf_playlistD)
  from assms(1,2) have "distinct (rundownIds playlist)" "distinct (rundownIds previous)"
    by (simp_all add: wf_playlistD)
  from filter_changes_present [OF this assms(3), of GetMovedSegments] assms(4) r(2)
  have "filter (\<lambda>c. rundownExternalId c = rid) (changes (DiffPlaylist playlist previous)) =
      segment_changes_of rid (GetMovedSegments (segments p) (segments r))"
    by (simp add: DiffPlaylist_def rundown_changes_def)
  with GetMovedSegments_fewest_moved [OF r(1) assms(5,6)] show ?thesis
    by (simp add: moved_segment_changes_of)
qed

theorem moved_records_minimal_witness:
  "wf_playlist ex_playlist \<and> wf_playlist ex_previous \<and>
   subseq [''A'', ''B'', ''D''] [''A'', ''B'', ''C'', ''D''] \<and>
   subseq [''A'', ''B'', ''D''] [''A'', ''C'', ''B'', ''D'', ''E''] \<and>
   length (filter (\<lambda>c. change_type c = PlaylistChangeSegmentMoved)
      (filter (\<lambda>c. rundownExternalId c = ''R1'') (changes (DiffPlaylist ex_playlist ex_previous)))) + 3
    \<le> length (common_segments [''A'', ''C'', ''B'', ''D'', ''E''] [''A'', ''B'', ''C'', ''D''])"
proof -
  have s: "subseq [''A'', ''B'', ''D''] [''A'', ''B'', ''C'', ''D'']"
    "subseq [''A'', ''B'', ''D''] [''A'', ''C'', ''B'', ''D'', ''E'']"
    by simp_all
  from moved_records_minimal [OF ex_wf ex_find, of "[''A'', ''B'', ''D'']"] s ex_wf
  show ?thesis by simp
qed

text \<open>
  \<^bold>\<open>C16.\<close> What the log does not mention has not moved. For well-formed
  playlists and a rundown found in both, the segments of the previous rundown that
  no record of the log mentions and the segments of the current rundown that no
  record mentions are the same sequence, and it is the not-moved list of the map's
  entry: a consumer that repositions only the segments named in the log arrives at
  the new order.
\<close>

theorem unmentioned_in_order:
  assumes "wf_playlist playlist" and "wf_playlist previous"
    and "find_rundown rid playlist = Some r" and "find_rundown rid previous = Some p"
  shows "\<exists>sc. js_get (segmentChanges (DiffPlaylist playlist previous)) rid = Some sc \<and>
    filter (\<lambda>s. s \<notin> mentioned (changes (DiffPlaylist playlist previous)) rid) (segments p) =
      notMovedSegments sc \<and>
    filter (\<lambda>s. s \<notin> mentioned (changes (DiffPlaylist playlist previous)) rid) (segments r) =
      notMovedSegments sc"
proof -
  from assms have d: "distinct (rundownIds playlist)" "distinct (rundownIds previous)"
    and s: "distinct (segments p)" "distinct (segments r)"
    by (auto dest: find_rundown_SomeD wf_playlistD)
  from js_get_present [OF d(1) assms(3,4), of GetMovedSegments]
    mentioned_present [OF d assms(3,4), of GetMovedSegments] GetMovedSegments_in_place [OF s]
  show ?thesis by (simp add: DiffPlaylist_def)
qed

theorem unmentioned_in_order_witness:
  "wf_playlist ex_playlist \<and> wf_playlist ex_previous \<and>
   filter (\<lambda>s. s \<notin> mentioned (changes (DiffPlaylist ex_playlist ex_previous)) ''R1'')
     [''A'', ''B'', ''C'', ''D''] = [''A'', ''B'', ''D''] \<and>
   filter (\<lambda>s. s \<notin> mentioned (changes (DiffPlaylist ex_playlist ex_previous)) ''R1'')
     [''A'', ''C'', ''B'', ''D'', ''E''] = [''A'', ''B'', ''D'']"
  using unmentioned_in_order [OF ex_wf ex_find] ex_wf ex_R1
  by simp

lemma resolver_ok_dp: "resolver_ok GetMovedSegments_dp"
  by (simp add: GetMovedSegments_dp_eq resolver_ok_GetMovedSegments)

text \<open>
  \<^bold>\<open>C27.\<close> The table-based resolver is interchangeable with the reference: the
  differ run with \<open>GetMovedSegments_dp\<close>, which computes the not-moved segments by
  the dynamic-programming table and the walk through it, returns the same log and
  the same map as \<open>DiffPlaylist\<close> for all playlists.
\<close>

theorem DiffPlaylist_dp: "DiffPlaylist_with GetMovedSegments_dp playlist previous = DiffPlaylist playlist previous"
  by (simp add: DiffPlaylist_def GetMovedSegments_dp_eq)

text \<open>
  \<^bold>\<open>C24.\<close> The log is linear in the input. When the rundown ids of the playlist are
  distinct, the log has at most as many records as the two playlists have rundowns
  and segments together (\<open>playlist_size\<close>).
\<close>

theorem log_size:
  assumes "distinct (rundownIds playlist)"
  shows "length (changes (DiffPlaylist playlist previous)) \<le> playlist_size playlist + playlist_size previous"
proof -
  have "length (concat (map (rundown_changes GetMovedSegments previous) playlist)) \<le>
      sum_list (map (\<lambda>r. Suc (length (segments r)) + matched_size previous r) playlist)"
    by (rule length_concat_le) (rule length_rundown_changes)
  also have "\<dots> = playlist_size playlist + sum_list (map (matched_size previous) playlist)"
    by (simp add: playlist_size_def sum_list_addf sum_list_Suc)
  also have "\<dots> \<le> playlist_size playlist + sum_list (map (\<lambda>p. length (segments p)) previous)"
    using sum_matched_size [OF assms, of previous] by simp
  finally have "length (concat (map (rundown_changes GetMovedSegments previous) playlist)) \<le>
      playlist_size playlist + sum_list (map (\<lambda>p. length (segments p)) previous)" .
  moreover have "length (deleted_rundowns playlist previous) \<le> length previous"
    by (simp add: deleted_rundowns_def)
  ultimately show ?thesis
    by (simp add: DiffPlaylist_def diff_simps playlist_size_def)
qed

theorem log_size_witness:
  "distinct (rundownIds ex_playlist) \<and>
   length (changes (DiffPlaylist ex_playlist ex_previous)) \<le> 10 + 7"
  using log_size [OF ex_distinct(1), of ex_previous] ex_distinct(1)
  by (simp add: playlist_size_def ex_playlist_def ex_previous_def)

text \<open>
  The condition is needed: a playlist that repeats a rundown id compares each copy
  with the same previous rundown and reports its segments again. Three empty copies
  of a rundown against the rundown with three segments give nine records, for seven
  rundowns and segments in all.
\<close>

lemma log_size_duplicate_ids:
  "length (changes (DiffPlaylist ex_repeated ex_three)) = 9"
  "playlist_size ex_repeated + playlist_size ex_three = 7"
  by (simp_all add: DiffPlaylist_def diff_simps step_simps playlist_size_def ex_repeated_def ex_three_def
      deleted_rundowns_def rundown_changes_def segment_changes_of_def find_rundown_def
      GetMovedSegments_def common_segments_def)

section \<open>The mapping stage with the differ\<close>

text \<open>
  The rundown of a sheet carries the segment ids of the parsed stories, in story
  order (\<open>rundown_of\<close>). A playlist of one such rundown is diffed by one call of
  the resolver (\<open>DiffPlaylist_single\<close>).
\<close>

lemma segments_rundown_of: "segments (rundown_of sheetId raw) = story_ids raw"
  by (simp add: rundown_of_def segment_ids_def externalId_parse)

lemma rundown_of_eq: "rundown_of sheetId raw = \<lparr>rundownId = sheetId, segments = story_ids raw\<rparr>"
  by (simp add: rundown_of_def segment_ids_def externalId_parse)

lemma story_ids_append: "story_ids (xs @ ys) = story_ids xs @ story_ids ys"
  by (simp add: story_ids_def)

lemma ex_story_ids:
  "story_ids ex_stories = [''A'', ''B'']" "story_ids ex_added = [''C'']"
  by (simp_all add: story_ids_def ex_stories_def ex_added_def or_empty_def)

lemma DiffPlaylist_single:
  "DiffPlaylist [\<lparr>rundownId = rid, segments = new\<rparr>] [\<lparr>rundownId = rid, segments = old\<rparr>] =
     \<lparr>changes = map (SegmentMoved rid) (movedSegments (GetMovedSegments old new)) @
        map (SegmentCreated rid) (insertedSegments (GetMovedSegments old new)) @
        map (SegmentDeleted rid) (deletedSegments (GetMovedSegments old new)),
      segmentChanges = [(rid, GetMovedSegments old new)]\<rparr>"
  by (simp add: DiffPlaylist_def DiffPlaylist_with_def gw_defs push_each_eq Let_def)

lemmas stage_simps = rundown_of_eq DiffPlaylist_single story_ids_append

text \<open>
  The mapping stage validates nothing: the one-rundown playlist built
  from a story list is well formed exactly when the story ids, with the empty string
  for a missing id, are distinct.
\<close>

lemma rundown_of_wf: "wf_playlist [rundown_of sheetId raw] \<longleftrightarrow> distinct (story_ids raw)"
  by (simp add: wf_playlist_def rundown_of_eq)

text \<open>
  \<^bold>\<open>C36.\<close> Reordering stories only moves segments. When two story lists have the
  same ids, in whatever order and multiplicity, the log of their rundowns consists
  of the resolver's moved segments as \<open>SegmentMoved\<close> records and nothing else.
\<close>

theorem stories_reordered:
  assumes "set (story_ids raw') = set (story_ids raw)"
  shows "changes (DiffPlaylist [rundown_of sheetId raw'] [rundown_of sheetId raw]) =
     map (SegmentMoved sheetId) (movedSegments (GetMovedSegments (story_ids raw) (story_ids raw')))"
  using assms by (simp add: stage_simps GetMovedSegments_same_set)

theorem stories_reordered_witness:
  "set (story_ids ex_swapped) = set (story_ids ex_stories) \<and>
   changes (DiffPlaylist [rundown_of ''S'' ex_swapped] [rundown_of ''S'' ex_stories]) =
     [SegmentMoved ''S'' ''B'']"
proof -
  have ids: "story_ids ex_swapped = [''B'', ''A'']"
    by (simp add: ex_swapped_def story_ids_def ex_stories_def or_empty_def)
  then have h: "set (story_ids ex_swapped) = set (story_ids ex_stories)"
    by (auto simp: ex_story_ids)
  from stories_reordered [OF h, of "''S''"] h show ?thesis
    by (simp add: ids ex_story_ids GetMovedSegments_def common_segments_def)
qed

text \<open>
  \<^bold>\<open>C37.\<close> Stories appended to a sheet, with ids the sheet did not have, are
  reported as created segments in their order, and nothing else is reported; the
  summary keeps the old segments not moved.
\<close>

theorem stories_appended:
  assumes "set (story_ids raw) \<inter> set (story_ids added) = {}"
  shows "DiffPlaylist [rundown_of sheetId (raw @ added)] [rundown_of sheetId raw] =
     \<lparr>changes = map (SegmentCreated sheetId) (story_ids added),
      segmentChanges = [(sheetId, \<lparr>movedSegments = [], notMovedSegments = story_ids raw,
         insertedSegments = story_ids added, deletedSegments = []\<rparr>)]\<rparr>"
  using assms by (simp add: stage_simps GetMovedSegments_append)

theorem stories_appended_witness:
  "set (story_ids ex_stories) \<inter> set (story_ids ex_added) = {} \<and>
   changes (DiffPlaylist [rundown_of ''S'' (ex_stories @ ex_added)] [rundown_of ''S'' ex_stories]) =
     [SegmentCreated ''S'' ''C'']"
proof -
  have h: "set (story_ids ex_stories) \<inter> set (story_ids ex_added) = {}" by (simp add: ex_story_ids)
  from stories_appended [OF h, of "''S''"] h show ?thesis by (simp add: ex_story_ids)
qed

text \<open>
  Stories removed from the end of a sheet, whose ids the remaining
  stories do not have, are reported as deleted segments in their order, and nothing
  else is reported.
\<close>

lemma stories_removed:
  assumes "set (story_ids raw) \<inter> set (story_ids gone) = {}"
  shows "DiffPlaylist [rundown_of sheetId raw] [rundown_of sheetId (raw @ gone)] =
     \<lparr>changes = map (SegmentDeleted sheetId) (story_ids gone),
      segmentChanges = [(sheetId, \<lparr>movedSegments = [], notMovedSegments = story_ids raw,
         insertedSegments = [], deletedSegments = story_ids gone\<rparr>)]\<rparr>"
  using assms by (simp add: stage_simps GetMovedSegments_take)

lemma stories_removed_example:
  "set (story_ids ex_stories) \<inter> set (story_ids ex_added) = {} \<and>
   changes (DiffPlaylist [rundown_of ''S'' ex_stories] [rundown_of ''S'' (ex_stories @ ex_added)]) =
     [SegmentDeleted ''S'' ''C'']"
proof -
  have h: "set (story_ids ex_stories) \<inter> set (story_ids ex_added) = {}" by (simp add: ex_story_ids)
  from stories_removed [OF h, of "''S''"] h show ?thesis by (simp add: ex_story_ids)
qed

section \<open>Moves depend on the direction\<close>

text \<open>
  Moves are not mirrored when the playlists are swapped: between the orders A, B, C, D and
  A, C, B, D the resolver moves C in one direction and B in the other, since it keeps
  the segment that comes first in the previous order.
\<close>

lemma moves_not_mirrored:
  "movedSegments (GetMovedSegments [''A'', ''B'', ''C'', ''D''] [''A'', ''C'', ''B'', ''D'']) = [''C'']"
  "movedSegments (GetMovedSegments [''A'', ''C'', ''B'', ''D''] [''A'', ''B'', ''C'', ''D'']) = [''B'']"
  by (simp_all add: GetMovedSegments_def common_segments_def)

section \<open>Examples\<close>

text \<open>
  The distinctness condition of the no-op property is needed. For the
  playlist \<open>ex_duplicate\<close>, in which two rundowns share the id \<open>R1\<close>, the diff
  against itself is not empty: the rundown lookup returns the first rundown with
  the id, so the second is compared with the first and its segment is reported as
  created and the first one's as deleted.
\<close>

lemma DiffPlaylist_duplicate_ids:
  "changes (DiffPlaylist ex_duplicate ex_duplicate) =
     [SegmentCreated ''R1'' ''B'', SegmentDeleted ''R1'' ''A'']"
  by (simp add: DiffPlaylist_def DiffPlaylist_with_def gw_defs ex_duplicate_def
      GetMovedSegments_def common_segments_def push_def push_each_eq)

text \<open>
  For the same playlist the replay of the log on the snapshot does not give the
  snapshot back: the distinctness condition of the replay property is needed as well.
\<close>

lemma replay_duplicate_ids:
  "replay (view ex_duplicate) (changes (DiffPlaylist ex_duplicate ex_duplicate)) (view ex_duplicate) ''R1'' =
     Some {''B''}"
  "view ex_duplicate ''R1'' = Some {''A''}"
  by (auto simp: DiffPlaylist_def DiffPlaylist_with_def gw_defs ex_duplicate_def
      GetMovedSegments_def common_segments_def push_def push_each_eq on_rundown_def view_def)

text \<open>
  The worked examples of the specification. For the snapshots
  \<open>ex_previous\<close> and \<open>ex_playlist\<close> the differ returns \<open>ex_diff\<close>: \<open>R0\<close> is
  deleted and \<open>R2\<close> created, each with an empty summary and no segment record;
  for \<open>R1\<close>, with previous order A, B, C, D and current order A, C, B, D, E, segment
  C is moved, E is created, and A, B, D are not moved.
\<close>

lemma DiffPlaylist_example: "DiffPlaylist ex_playlist ex_previous = ex_diff"
  by (simp add: DiffPlaylist_def ex_eval)


end
